theory Spec2Isabelle
  imports Main "HOL-Library.Word" "HOL-Library.Stream"
begin

text \<open>
  A model of the authentication and token-renewal code of nxapi: the authorisation object
  and the PKCE data of \<^verbatim>\<open>src/api/na.ts\<close>, and the renewal protocol of the Coral
  client (\<^verbatim>\<open>CoralApi.fetch\<close>, \<^verbatim>\<open>CoralApi.getWebServiceToken\<close>). Exceptions are
  values, the network and the random generator are inputs, and the asynchronous calls of
  the client are the states of an event loop. The definitions come first, the properties
  after them.
\<close>

section \<open>Nintendo Account authorisation (src/api/na.ts)\<close>

subsection \<open>JavaScript values and the transport\<close>

text \<open>
  The optional second argument of \<^verbatim>\<open>getSessionToken\<close> has the TypeScript type
  \<^verbatim>\<open>string | null | undefined\<close>; the first one is
  \<^verbatim>\<open>string | URLSearchParams | null\<close>. A \<^verbatim>\<open>URLSearchParams\<close> object is an ordered
  list of name/value pairs: \<^verbatim>\<open>get\<close> returns the value of the first pair with the
  name (or \<^verbatim>\<open>null\<close>), \<^verbatim>\<open>has\<close> tells whether there is one.
\<close>

datatype js_string = Undefined | Null | Str string

type_synonym URLSearchParams = "(string \<times> string) list"

datatype code_arg = Code_string string | Code_params URLSearchParams | Code_null

definition params_get :: "URLSearchParams \<Rightarrow> string \<Rightarrow> js_string" where
  "params_get qs k = (case map_of qs k of None \<Rightarrow> Null | Some v \<Rightarrow> Str v)"

definition params_has :: "URLSearchParams \<Rightarrow> string \<Rightarrow> bool" where
  "params_has qs k = (map_of qs k \<noteq> None)"

text \<open>
  Every exception of the module is a value. \<^verbatim>\<open>Error\<close> and \<^verbatim>\<open>TypeError\<close> carry their
  message, the authorisation error its code and message, the two response errors their
  message and the HTTP status; \<^verbatim>\<open>Fetch_rejected\<close> is the rejection of
  \<^verbatim>\<open>fetch\<close> itself (no response, or the timeout signal fired) and
  \<^verbatim>\<open>Json_rejected\<close> the one of \<^verbatim>\<open>response.json()\<close>.
\<close>

datatype na_error =
    Error string
  | TypeError string
  | NintendoAccountSessionAuthorisationError string string
  | NintendoAccountAuthErrorResponse string nat
  | NintendoAccountErrorResponse string nat
  | Fetch_rejected string
  | Json_rejected

record http_request =
  url :: string
  http_method :: string
  headers :: "(string \<times> string) list"
  body :: "(string \<times> string) list"

record NintendoAccountSessionToken =
  session_token :: string
  code :: string

text \<open>
  The JSON object of a reply of the session-token endpoint: the fields the code looks at
  (\<^verbatim>\<open>'error' in token\<close>, \<^verbatim>\<open>token.error_description ?? token.error\<close>,
  \<^verbatim>\<open>'errorCode' in token\<close>, \<^verbatim>\<open>token.detail\<close>) and the token itself.
\<close>

record na_json =
  error :: "string option"
  error_description :: "string option"
  errorCode :: "string option"
  detail :: string
  na_token :: NintendoAccountSessionToken

datatype http_reply =
    No_reply string
  | Reply nat "na_json option"

type_synonym transport = "http_request \<Rightarrow> http_reply"

subsection \<open>The session-token exchange\<close>

text \<open>
  \<^verbatim>\<open>getNintendoAccountSessionToken(code, verifier, client_id)\<close>: one POST to the
  session-token endpoint. The model takes the transport as a function and the list of the
  requests issued so far, and returns the list with this request appended: the list is
  what the network has seen.
\<close>

definition session_token_request :: "string \<Rightarrow> string \<Rightarrow> string \<Rightarrow> http_request" where
  "session_token_request c v cid =
     \<lparr> url = ''https://accounts.nintendo.com/connect/1.0.0/api/session_token'',
       http_method = ''POST'',
       headers = [(''Content-Type'', ''application/x-www-form-urlencoded''),
                  (''Accept'', ''application/json''),
                  (''User-Agent'', ''NASDKAPI; Android'')],
       body = [(''client_id'', cid), (''session_token_code'', c),
               (''session_token_code_verifier'', v)] \<rparr>"

definition getNintendoAccountSessionToken ::
  "transport \<Rightarrow> string \<Rightarrow> string \<Rightarrow> string \<Rightarrow> http_request list
     \<Rightarrow> (na_error + NintendoAccountSessionToken) \<times> http_request list" where
  "getNintendoAccountSessionToken net c v cid sent =
     (let req = session_token_request c v cid; sent' = sent @ [req] in
      case net req of
        No_reply why \<Rightarrow> (Inl (Fetch_rejected why), sent')
      | Reply st js \<Rightarrow>
          if st \<noteq> 200
          then (Inl (NintendoAccountAuthErrorResponse ''[na] Non-200 status code'' st), sent')
          else (case js of
                  None \<Rightarrow> (Inl Json_rejected, sent')
                | Some t \<Rightarrow>
                    (case error t of
                       Some e \<Rightarrow>
                         (Inl (NintendoAccountAuthErrorResponse
                                 (''[na] '' @ (case error_description t of Some d \<Rightarrow> d | None \<Rightarrow> e)) st),
                          sent')
                     | None \<Rightarrow>
                         (case errorCode t of
                            Some _ \<Rightarrow> (Inl (NintendoAccountErrorResponse (''[na] '' @ detail t) st), sent')
                          | None \<Rightarrow> (Inr (na_token t), sent')))))"

subsection \<open>The authorisation object\<close>

text \<open>
  The class \<^verbatim>\<open>NintendoAccountSessionAuthorisation\<close>. Its field \<^verbatim>\<open>result\<close> is
  \<^verbatim>\<open>null\<close> until an exchange was started and then the pair
  \<^verbatim>\<open>{state: result_state, code}\<close>.
\<close>

record NintendoAccountSessionAuthorisation =
  client_id :: string
  scope :: string
  authorise_url :: string
  state :: string
  verifier :: string
  redirect_uri :: string
  result :: "(js_string \<times> string) option"

text \<open>
  \<^verbatim>\<open>NintendoAccountSessionAuthorisationError.fromSearchParams\<close>:
  \<^verbatim>\<open>qs.get('error') ?? 'unknown_error'\<close> and
  \<^verbatim>\<open>qs.get('error_description') ?? code\<close>.
\<close>

definition fromSearchParams :: "URLSearchParams \<Rightarrow> na_error" where
  "fromSearchParams qs =
     (let c = (case map_of qs ''error'' of Some e \<Rightarrow> e | None \<Rightarrow> ''unknown_error'');
          m = (case map_of qs ''error_description'' of Some d \<Rightarrow> d | None \<Rightarrow> c)
      in NintendoAccountSessionAuthorisationError c m)"

text \<open>
  \<^verbatim>\<open>getSessionToken(code, state)\<close>, statement by statement. The result is the
  value or exception of the returned promise, the object after the call and the requests
  the network has seen. \<^verbatim>\<open>typeof code !== 'string' || !code\<close> rejects
  \<^verbatim>\<open>null\<close> and the empty string.
\<close>

definition getSessionToken ::
  "transport \<Rightarrow> NintendoAccountSessionAuthorisation \<Rightarrow> code_arg \<Rightarrow> js_string \<Rightarrow> http_request list
     \<Rightarrow> (na_error + NintendoAccountSessionToken) \<times> NintendoAccountSessionAuthorisation \<times> http_request list" where
  "getSessionToken net this code_in state_in sent =
     (if result this \<noteq> None
      then (Inl (Error ''NintendoAccountSessionAuthorisation already completed''), this, sent)
      else
        let result_state = state_in;
            early = (case code_in of
                       Code_params qs \<Rightarrow>
                         if params_get qs ''state'' \<noteq> Str (state this)
                         then Some (TypeError ''Invalid state'')
                         else if params_has qs ''error'' then Some (fromSearchParams qs)
                         else None
                     | _ \<Rightarrow> None);
            code' = (case code_in of
                       Code_params qs \<Rightarrow> params_get qs ''session_token_code''
                     | Code_string s \<Rightarrow> Str s
                     | Code_null \<Rightarrow> Null);
            state' = (case code_in of Code_params qs \<Rightarrow> Undefined | _ \<Rightarrow> state_in)
        in case early of
             Some e \<Rightarrow> (Inl e, this, sent)
           | None \<Rightarrow>
               if state' \<noteq> Undefined \<and> state' \<noteq> Str (state this)
               then (Inl (TypeError ''Invalid state''), this, sent)
               else (case code' of
                       Str c \<Rightarrow>
                         if c = [] then (Inl (TypeError ''Invalid code''), this, sent)
                         else
                           let this' = this\<lparr> result := Some (result_state, c) \<rparr>;
                               (r, sent') = getNintendoAccountSessionToken net c (verifier this)
                                              (client_id this) sent
                           in (r, this', sent')
                     | _ \<Rightarrow> (Inl (TypeError ''Invalid code''), this, sent)))"

text \<open>
  A callback input carries a state that differs from the stored one: the query string
  form reads the \<^verbatim>\<open>state\<close> parameter (\<^verbatim>\<open>null\<close> when absent), the raw form
  is the second argument.
\<close>

definition callback_state :: "code_arg \<Rightarrow> js_string \<Rightarrow> js_string" where
  "callback_state code_in state_in =
     (case code_in of Code_params qs \<Rightarrow> params_get qs ''state'' | _ \<Rightarrow> state_in)"

section \<open>The PKCE challenge (generateAuthData, src/api/na.ts)\<close>

subsection \<open>Buffers, base64url and the query string\<close>

text \<open>
  A \<^verbatim>\<open>Buffer\<close> is a list of bytes. The strings of this function are ASCII, so a
  string is the list of its UTF-8 bytes and \<^verbatim>\<open>hash.update(verifier)\<close> hashes exactly
  them. \<^verbatim>\<open>buf.toString('base64url')\<close> is the base64 encoding with the alphabet of
  RFC 4648 section 5 and no padding: three bytes give four characters, a rest of one byte
  two characters and a rest of two bytes three.
\<close>

type_synonym byte = "8 word"

definition utf8 :: "string \<Rightarrow> byte list" where
  "utf8 s = map (\<lambda>c. of_nat (of_char c)) s"

definition base64url_alphabet :: string where
  "base64url_alphabet = ''ABCDEFGHIJKLMNOPQRSTUVWXYZabcdefghijklmnopqrstuvwxyz0123456789-_''"

definition b64 :: "nat \<Rightarrow> char" where
  "b64 n = base64url_alphabet ! (n mod 64)"

fun base64url :: "byte list \<Rightarrow> string" where
  "base64url (a # b # c # rest) =
     [b64 (unat a div 4),
      b64 (unat a mod 4 * 16 + unat b div 16),
      b64 (unat b mod 16 * 4 + unat c div 64),
      b64 (unat c mod 64)] @ base64url rest"
| "base64url [a, b] =
     [b64 (unat a div 4),
      b64 (unat a mod 4 * 16 + unat b div 16),
      b64 (unat b mod 16 * 4)]"
| "base64url [a] =
     [b64 (unat a div 4),
      b64 (unat a mod 4 * 16)]"
| "base64url [] = []"

text \<open>
  The inverse reading of the alphabet and of the encoding. It is not part of the program;
  it is here to state that the encoding loses none of the random bytes.
\<close>

definition b64_index :: "char \<Rightarrow> nat" where
  "b64_index c = length (takeWhile (\<lambda>x. x \<noteq> c) base64url_alphabet)"

fun base64url_decode :: "string \<Rightarrow> byte list" where
  "base64url_decode (w # x # y # z # rest) =
     [of_nat (b64_index w * 4 + b64_index x div 16),
      of_nat (b64_index x mod 16 * 16 + b64_index y div 4),
      of_nat (b64_index y mod 4 * 64 + b64_index z)] @ base64url_decode rest"
| "base64url_decode [w, x, y] =
     [of_nat (b64_index w * 4 + b64_index x div 16),
      of_nat (b64_index x mod 16 * 16 + b64_index y div 4)]"
| "base64url_decode [w, x] = [of_nat (b64_index w * 4 + b64_index x div 16)]"
| "base64url_decode _ = []"

text \<open>
  \<^verbatim>\<open>new URLSearchParams(params).toString()\<close>: the serialiser of
  application/x-www-form-urlencoded. A space becomes \<^verbatim>\<open>+\<close>, the letters, digits and
  \<^verbatim>\<open>*-._\<close> stay, every other byte becomes \<^verbatim>\<open>%XX\<close> in upper-case hexadecimal;
  name and value are joined by \<^verbatim>\<open>=\<close> and the pairs by \<^verbatim>\<open>&\<close>.
\<close>

definition hex_digit :: "nat \<Rightarrow> char" where
  "hex_digit n = ''0123456789ABCDEF'' ! (n mod 16)"

definition urlencoded_plain :: string where
  "urlencoded_plain = ''ABCDEFGHIJKLMNOPQRSTUVWXYZabcdefghijklmnopqrstuvwxyz0123456789*-._''"

definition urlencode_byte :: "char \<Rightarrow> string" where
  "urlencode_byte c =
     (if c = CHR '' '' then ''+''
      else if c \<in> set urlencoded_plain then [c]
      else [CHR ''%'', hex_digit (of_char c div 16), hex_digit (of_char c mod 16)])"

definition urlencode :: "string \<Rightarrow> string" where
  "urlencode s = concat (map urlencode_byte s)"

fun join :: "string \<Rightarrow> string list \<Rightarrow> string" where
  "join sep [] = []"
| "join sep [x] = x"
| "join sep (x # y # ys) = x @ sep @ join sep (y # ys)"

definition params_toString :: "(string \<times> string) list \<Rightarrow> string" where
  "params_toString qs = join ''&'' (map (\<lambda>(k, v). urlencode k @ ''='' @ urlencode v) qs)"

subsection \<open>generateAuthData\<close>

text \<open>
  \<^verbatim>\<open>crypto.randomBytes(n)\<close> draws \<^verbatim>\<open>n\<close> bytes from the operating system's
  generator. The generator is the stream of the bytes it will deliver; drawing returns the
  first \<^verbatim>\<open>n\<close> and leaves the rest. \<^verbatim>\<open>crypto.createHash('sha256')\<close> belongs to
  the runtime and is a parameter of the model.
\<close>

definition randomBytes :: "nat \<Rightarrow> byte stream \<Rightarrow> byte list \<times> byte stream" where
  "randomBytes n src = (stake n src, sdrop n src)"

datatype scope_arg = Scope_string string | Scope_list "string list"

definition scope_string :: "scope_arg \<Rightarrow> string" where
  "scope_string sc = (case sc of Scope_string s \<Rightarrow> s | Scope_list ss \<Rightarrow> join '' '' ss)"

definition default_redirect_uri :: "string \<Rightarrow> string option \<Rightarrow> string" where
  "default_redirect_uri cid ru = (case ru of Some u \<Rightarrow> u | None \<Rightarrow> ''npf'' @ cid @ ''://auth'')"

definition authorise_params :: "string \<Rightarrow> string \<Rightarrow> string \<Rightarrow> string \<Rightarrow> string \<Rightarrow> (string \<times> string) list" where
  "authorise_params st ru cid sc challenge =
     [(''state'', st),
      (''redirect_uri'', ru),
      (''client_id'', cid),
      (''scope'', sc),
      (''response_type'', ''session_token_code''),
      (''session_token_code_challenge'', challenge),
      (''session_token_code_challenge_method'', ''S256''),
      (''theme'', ''login_form'')]"

record AuthData =
  ad_url :: string
  ad_state :: string
  ad_verifier :: string
  ad_challenge :: string

definition generateAuthData ::
  "(byte list \<Rightarrow> byte list) \<Rightarrow> string \<Rightarrow> scope_arg \<Rightarrow> string option \<Rightarrow> byte stream
     \<Rightarrow> AuthData \<times> byte stream" where
  "generateAuthData sha256 cid sc ru src =
     (let (r1, src1) = randomBytes 36 src;
          st = base64url r1;
          (r2, src2) = randomBytes 32 src1;
          vf = base64url r2;
          challenge = base64url (sha256 (utf8 vf));
          params = authorise_params st (default_redirect_uri cid ru) cid (scope_string sc) challenge;
          u = ''https://accounts.nintendo.com/connect/1.0.0/authorize?'' @ params_toString params
      in (\<lparr> ad_url = u, ad_state = st, ad_verifier = vf, ad_challenge = challenge \<rparr>, src2))"


section \<open>The Coral client (CoralApi)\<close>

subsection \<open>Responses and errors\<close>

text \<open>
  Modelled from the spec: the enum \<^verbatim>\<open>CoralStatus\<close> of coral-types.ts, which is not
  among the sources. The code compares a status with \<^verbatim>\<open>CoralStatus.OK\<close> and with
  \<^verbatim>\<open>CoralStatus.TOKEN_EXPIRED\<close> only; the spec says that a dedicated status value
  signals token-expired, distinct from generic errors.
\<close>

datatype CoralStatus = OK | TOKEN_EXPIRED | Other_status int

text \<open>
  The envelope \<^verbatim>\<open>CoralResponse\<close>: \<^verbatim>\<open>errorMessage\<close> is present or not
  (\<^verbatim>\<open>'errorMessage' in data\<close>).
\<close>

record CoralResponse =
  status :: CoralStatus
  errorMessage :: "string option"
  result_value :: string
  correlationId :: string

text \<open>
  \<^verbatim>\<open>ErrorResponse(message, response, body)\<close> keeps the message, the status of the
  response and its \<^verbatim>\<open>data\<close>. The class is defined in util.ts, which is not among the
  sources: given an object it keeps the object as \<^verbatim>\<open>data\<close>; given a string (the text
  of a non-200 response) it parses the string as JSON and keeps the result, and
  \<^verbatim>\<open>data\<close> stays \<^verbatim>\<open>undefined\<close> when the string is empty or does not parse (na.ts
  reads \<^verbatim>\<open>this.data?.error\<close> of the same class). So the data is an envelope or
  nothing. Every other rejection (of \<^verbatim>\<open>fetch\<close>, of \<^verbatim>\<open>response.json()\<close>, of
  \<^verbatim>\<open>f\<close>) is \<^verbatim>\<open>Rejected\<close>; the renewal callback may reject with any of them.
  \<^verbatim>\<open>TypeError_data_undefined\<close> is the \<^verbatim>\<open>TypeError\<close> that reading
  \<^verbatim>\<open>err.data.status\<close> throws when \<^verbatim>\<open>err.data\<close> is \<^verbatim>\<open>undefined\<close>.
\<close>

datatype coral_error =
    ErrorResponse string nat "CoralResponse option"
  | Rejected string
  | TypeError_data_undefined

text \<open>
  What the server answers to one request: nothing, or a status, the text of the body and
  the JSON reading of that text (\<^verbatim>\<open>None\<close> when the text is not JSON).
\<close>

datatype coral_reply = Fetch_failed string | Response nat string "CoralResponse option"

subsection \<open>The client object and its pending calls\<close>

text \<open>
  The fields of \<^verbatim>\<open>CoralApi\<close> that the renewal protocol reads and writes:
  \<^verbatim>\<open>token\<close>, whether \<^verbatim>\<open>onTokenExpired\<close> is set, and \<^verbatim>\<open>_renewToken\<close>, which
  is \<^verbatim>\<open>null\<close> or a pending promise. A promise is named by a number: the number of
  invocations of the callback before the one that created it.
\<close>

record CoralApi =
  token :: string
  onTokenExpired :: bool
  renewToken :: "nat option"

definition setTokenWithSavedToken :: "CoralApi \<Rightarrow> string \<Rightarrow> CoralApi" where
  "setTokenWithSavedToken this accessToken = this\<lparr> token := accessToken \<rparr>"

text \<open>
  JavaScript runs one job at a time, and an \<^verbatim>\<open>async\<close> function runs without
  interruption from one \<^verbatim>\<open>await\<close> to the next. A call in progress is therefore
  described by the \<^verbatim>\<open>await\<close> at which it is suspended and the values of its
  parameters:
  \<^item> \<^verbatim>\<open>Fetch (Await_renewToken p) au a k\<close>: \<^verbatim>\<open>fetch\<close> at
    \<^verbatim>\<open>await this._renewToken\<close>, the promise being \<^verbatim>\<open>p\<close>, with
    \<^verbatim>\<open>_autoRenewToken = au\<close> and \<^verbatim>\<open>_attempt = a\<close>;
  \<^item> \<^verbatim>\<open>Fetch Await_response au a k\<close>: \<^verbatim>\<open>fetch\<close> at \<^verbatim>\<open>await fetch(...)\<close>,
    the request being on its way;
  \<^item> \<^verbatim>\<open>Wst_await_renewToken p a\<close>: \<^verbatim>\<open>getWebServiceToken(id, a)\<close> at
    \<^verbatim>\<open>await this._renewToken\<close>;
  \<^item> \<^verbatim>\<open>Wst_await_f a\<close>: \<^verbatim>\<open>getWebServiceToken(id, a)\<close> at \<^verbatim>\<open>await f(...)\<close>;
  \<^item> \<^verbatim>\<open>Settled r\<close>: the promise of the call has settled with \<^verbatim>\<open>r\<close>.

  In a \<^verbatim>\<open>Fetch\<close> the last component says who awaits the result: \<^verbatim>\<open>None\<close> is a
  caller outside the class, \<^verbatim>\<open>Some a\<close> is \<^verbatim>\<open>getWebServiceToken(id, a)\<close> inside
  its \<^verbatim>\<open>try\<close> block (through \<^verbatim>\<open>this.call\<close>). Each call also records the bearer
  tokens of the requests it has sent to the Coral server, oldest first.
\<close>

datatype fetch_pc = Await_renewToken nat | Await_response

datatype task =
    Fetch fetch_pc bool nat "nat option"
  | Wst_await_renewToken nat nat
  | Wst_await_f nat
  | Settled "coral_error + CoralResponse"

record caller =
  task :: task
  sent :: "string list"

text \<open>
  The client together with the number of times \<^verbatim>\<open>onTokenExpired\<close> has been invoked.
\<close>

type_synonym client = "CoralApi \<times> nat"

record world =
  api :: CoralApi
  invocations :: nat
  callers :: "caller list"

subsection \<open>The code between two awaits\<close>

text \<open>
  \<^verbatim>\<open>this._renewToken = this._renewToken ?? this.onTokenExpired.call(...).then(...).finally(...)\<close>:
  the callback is invoked only when no promise is stored.
\<close>

definition renew :: "client \<Rightarrow> client" where
  "renew s =
     (case renewToken (fst s) of
        Some p \<Rightarrow> s
      | None \<Rightarrow> ((fst s)\<lparr> renewToken := Some (snd s) \<rparr>, Suc (snd s)))"

text \<open>
  Entering \<^verbatim>\<open>fetch\<close>: it waits for a stored promise when \<^verbatim>\<open>_autoRenewToken\<close>
  is set, and otherwise sends the request with the current token at once.
\<close>

definition fetch_enter :: "CoralApi \<Rightarrow> bool \<Rightarrow> nat \<Rightarrow> nat option \<Rightarrow> string list \<Rightarrow> caller" where
  "fetch_enter this au a k snt =
     (case renewToken this of
        Some p \<Rightarrow>
          if au then \<lparr> task = Fetch (Await_renewToken p) au a k, sent = snt \<rparr>
          else \<lparr> task = Fetch Await_response au a k, sent = snt @ [token this] \<rparr>
      | None \<Rightarrow> \<lparr> task = Fetch Await_response au a k, sent = snt @ [token this] \<rparr>)"

text \<open>
  Entering \<^verbatim>\<open>getWebServiceToken\<close>: \<^verbatim>\<open>await this._renewToken\<close> without a
  condition (awaiting \<^verbatim>\<open>null\<close> goes on), then the call of \<^verbatim>\<open>f\<close>.
\<close>

definition wst_enter :: "CoralApi \<Rightarrow> nat \<Rightarrow> string list \<Rightarrow> caller" where
  "wst_enter this a snt =
     (case renewToken this of
        Some p \<Rightarrow> \<lparr> task = Wst_await_renewToken p a, sent = snt \<rparr>
      | None \<Rightarrow> \<lparr> task = Wst_await_f a, sent = snt \<rparr>)"

text \<open>
  \<^verbatim>\<open>fetch\<close> from the arrival of the response to its end: the non-200 check, the
  token-expired check with its three guards, the \<^verbatim>\<open>errorMessage\<close> check and the
  status check, in this order.
\<close>

datatype fetch_next = Retry | Throw coral_error | Return CoralResponse

definition fetch_response :: "CoralApi \<Rightarrow> bool \<Rightarrow> nat \<Rightarrow> coral_reply \<Rightarrow> fetch_next" where
  "fetch_response this au a reply =
     (case reply of
        Fetch_failed why \<Rightarrow> Throw (Rejected why)
      | Response st txt js \<Rightarrow>
          if st \<noteq> 200 then Throw (ErrorResponse ''[znc] Non-200 status code'' st js)
          else (case js of
                  None \<Rightarrow> Throw (Rejected ''invalid json response body'')
                | Some data \<Rightarrow>
                    if status data = TOKEN_EXPIRED \<and> au \<and> a = 0 \<and> onTokenExpired this then Retry
                    else (case errorMessage data of
                            Some m \<Rightarrow> Throw (ErrorResponse (''[znc] '' @ m) st (Some data))
                          | None \<Rightarrow>
                              if status data \<noteq> OK
                              then Throw (ErrorResponse ''[znc] Unknown error'' st (Some data))
                              else Return data)))"

text \<open>
  The test of the \<^verbatim>\<open>catch\<close> block of \<^verbatim>\<open>getWebServiceToken\<close>:
  \<^verbatim>\<open>err instanceof ErrorResponse && err.data.status === CoralStatus.TOKEN_EXPIRED\<close>.
  It holds of an \<^verbatim>\<open>ErrorResponse\<close> whose data is an envelope with this status, be it
  the envelope of a 200 response or the parsed body of a non-200 response. On an
  \<^verbatim>\<open>ErrorResponse\<close> without data the test itself throws, which
  \<^verbatim>\<open>data_undefined\<close> tells.
\<close>

definition token_expired_error :: "coral_error \<Rightarrow> bool" where
  "token_expired_error err =
     (case err of
        ErrorResponse m st (Some d) \<Rightarrow> status d = TOKEN_EXPIRED
      | _ \<Rightarrow> False)"

definition data_undefined :: "coral_error \<Rightarrow> bool" where
  "data_undefined err = (case err of ErrorResponse m st None \<Rightarrow> True | _ \<Rightarrow> False)"

text \<open>
  The promise of a \<^verbatim>\<open>fetch\<close> settles with \<^verbatim>\<open>r\<close>. An outside caller has its
  result. Inside \<^verbatim>\<open>getWebServiceToken(id, a)\<close> a value is returned, and an error
  goes through the \<^verbatim>\<open>catch\<close> block: on an \<^verbatim>\<open>ErrorResponse\<close> without data the
  test throws its \<^verbatim>\<open>TypeError\<close>; a token-expired error on attempt 0 with a callback
  starts or joins the renewal and calls \<^verbatim>\<open>getWebServiceToken(id, a + 1)\<close>; every
  other error is thrown again.
\<close>

definition fetch_settles ::
  "client \<Rightarrow> nat option \<Rightarrow> coral_error + CoralResponse \<Rightarrow> string list \<Rightarrow> client \<times> caller" where
  "fetch_settles s k r snt =
     (case k of
        None \<Rightarrow> (s, \<lparr> task = Settled r, sent = snt \<rparr>)
      | Some a \<Rightarrow>
          (case r of
             Inr v \<Rightarrow> (s, \<lparr> task = Settled (Inr v), sent = snt \<rparr>)
           | Inl err \<Rightarrow>
               if data_undefined err
               then (s, \<lparr> task = Settled (Inl TypeError_data_undefined), sent = snt \<rparr>)
               else if token_expired_error err \<and> a = 0 \<and> onTokenExpired (fst s)
               then (let s' = renew s in (s', wst_enter (fst s') (a + 1) snt))
               else (s, \<lparr> task = Settled (Inl err), sent = snt \<rparr>)))"

text \<open>
  The response of the request of a call arrives. A token-expired envelope that passes
  the guards starts or joins the renewal and calls \<^verbatim>\<open>fetch\<close> again with
  \<^verbatim>\<open>_attempt + 1\<close>.
\<close>

definition response_arrives :: "client \<Rightarrow> caller \<Rightarrow> coral_reply \<Rightarrow> (client \<times> caller) option" where
  "response_arrives s c reply =
     (case task c of
        Fetch Await_response au a k \<Rightarrow>
          (case fetch_response (fst s) au a reply of
             Retry \<Rightarrow> (let s' = renew s in Some (s', fetch_enter (fst s') au (a + 1) k (sent c)))
           | Throw err \<Rightarrow> Some (fetch_settles s k (Inl err) (sent c))
           | Return v \<Rightarrow> Some (fetch_settles s k (Inr v) (sent c)))
      | _ \<Rightarrow> None)"

text \<open>
  The promise of \<^verbatim>\<open>f\<close> settles. Its rejection leaves \<^verbatim>\<open>getWebServiceToken\<close>
  (the call of \<^verbatim>\<open>f\<close> is outside the \<^verbatim>\<open>try\<close> block); its value leads to
  \<^verbatim>\<open>this.call(url, req, false)\<close>, which is \<^verbatim>\<open>fetch\<close> with
  \<^verbatim>\<open>_autoRenewToken = false\<close> and \<^verbatim>\<open>_attempt = 0\<close>.
\<close>

definition f_settles :: "client \<Rightarrow> caller \<Rightarrow> string option \<Rightarrow> (client \<times> caller) option" where
  "f_settles s c failure =
     (case task c of
        Wst_await_f a \<Rightarrow>
          (case failure of
             Some why \<Rightarrow> Some (s, \<lparr> task = Settled (Inl (Rejected why)), sent = sent c \<rparr>)
           | None \<Rightarrow> Some (s, fetch_enter (fst s) False 0 (Some a) (sent c)))
      | _ \<Rightarrow> None)"

text \<open>
  The stored promise \<^verbatim>\<open>p\<close> has settled, with the error \<^verbatim>\<open>Some e\<close> or without
  one, and a call that awaits it goes on: \<^verbatim>\<open>fetch\<close> sends its request with the
  token of that moment, \<^verbatim>\<open>getWebServiceToken\<close> calls \<^verbatim>\<open>f\<close>; a rejection is
  thrown from the \<^verbatim>\<open>await\<close>. Calls that do not await \<^verbatim>\<open>p\<close> stay as they are.
\<close>

definition resume :: "nat \<Rightarrow> coral_error option \<Rightarrow> client \<Rightarrow> caller \<Rightarrow> client \<times> caller" where
  "resume p failure s c =
     (case task c of
        Fetch (Await_renewToken q) au a k \<Rightarrow>
          if q \<noteq> p then (s, c)
          else (case failure of
                  Some e \<Rightarrow> fetch_settles s k (Inl e) (sent c)
                | None \<Rightarrow> (s, \<lparr> task = Fetch Await_response au a k, sent = sent c @ [token (fst s)] \<rparr>))
      | Wst_await_renewToken q a \<Rightarrow>
          if q \<noteq> p then (s, c)
          else (case failure of
                  Some e \<Rightarrow> (s, \<lparr> task = Settled (Inl e), sent = sent c \<rparr>)
                | None \<Rightarrow> (s, \<lparr> task = Wst_await_f a, sent = sent c \<rparr>))
      | _ \<Rightarrow> (s, c))"

fun resume_waiters :: "nat \<Rightarrow> coral_error option \<Rightarrow> client \<Rightarrow> caller list \<Rightarrow> client \<times> caller list" where
  "resume_waiters p failure s [] = (s, [])"
| "resume_waiters p failure s (c # cs) =
     (let (s', c') = resume p failure s c;
          (s'', cs') = resume_waiters p failure s' cs
      in (s'', c' # cs'))"

text \<open>
  The promise returned by \<^verbatim>\<open>onTokenExpired\<close> settles: with an error, with nothing
  (\<^verbatim>\<open>void\<close>) or with saved data, of which only \<^verbatim>\<open>credential.accessToken\<close> is
  used. The \<^verbatim>\<open>then\<close> handler stores the token when there is data and is skipped on
  an error, the \<^verbatim>\<open>finally\<close> handler clears \<^verbatim>\<open>_renewToken\<close>, and then the calls
  that await the promise go on, in the order in which they began to wait. The handlers
  and these continuations are promise jobs, which the runtime runs one after the other
  before it turns to the next input event; the model takes them as one step, so that no
  response is handled between them.
\<close>

definition renewal_settles ::
  "client \<Rightarrow> caller list \<Rightarrow> coral_error + string option \<Rightarrow> (client \<times> caller list) option" where
  "renewal_settles s cs outcome =
     (case renewToken (fst s) of
        None \<Rightarrow> None
      | Some p \<Rightarrow>
          let this' = (case outcome of
                         Inr (Some accessToken) \<Rightarrow> setTokenWithSavedToken (fst s) accessToken
                       | _ \<Rightarrow> fst s);
              this'' = this'\<lparr> renewToken := None \<rparr>;
              failure = (case outcome of Inl e \<Rightarrow> Some e | Inr _ \<Rightarrow> None)
          in Some (resume_waiters p failure (this'', snd s) cs))"

subsection \<open>The event loop\<close>

text \<open>
  What can happen next: somebody calls \<^verbatim>\<open>fetch\<close> or \<^verbatim>\<open>getWebServiceToken\<close>
  (the call is added at the end of the list of calls), the response to the request of call
  \<^verbatim>\<open>i\<close> arrives, the \<^verbatim>\<open>f\<close> of call \<^verbatim>\<open>i\<close> settles, or the renewal settles.
  An event that cannot happen in a world (no such call, or the call is not waiting for
  it) has no successor.
\<close>

datatype event =
    Call_fetch bool nat
  | Call_getWebServiceToken nat
  | Response_arrives nat coral_reply
  | F_settles nat "string option"
  | Renewal_settles "coral_error + string option"

definition put_caller :: "world \<Rightarrow> nat \<Rightarrow> client \<times> caller \<Rightarrow> world" where
  "put_caller w i sc =
     \<lparr> api = fst (fst sc), invocations = snd (fst sc), callers = (callers w)[i := snd sc] \<rparr>"

definition step :: "event \<Rightarrow> world \<Rightarrow> world option" where
  "step ev w =
     (case ev of
        Call_fetch au a \<Rightarrow> Some (w\<lparr> callers := callers w @ [fetch_enter (api w) au a None []] \<rparr>)
      | Call_getWebServiceToken a \<Rightarrow> Some (w\<lparr> callers := callers w @ [wst_enter (api w) a []] \<rparr>)
      | Response_arrives i reply \<Rightarrow>
          if i < length (callers w)
          then map_option (put_caller w i)
                 (response_arrives (api w, invocations w) (callers w ! i) reply)
          else None
      | F_settles i failure \<Rightarrow>
          if i < length (callers w)
          then map_option (put_caller w i)
                 (f_settles (api w, invocations w) (callers w ! i) failure)
          else None
      | Renewal_settles outcome \<Rightarrow>
          map_option (\<lambda>(s, cs). \<lparr> api = fst s, invocations = snd s, callers = cs \<rparr>)
            (renewal_settles (api w, invocations w) (callers w) outcome))"

fun run :: "event list \<Rightarrow> world \<Rightarrow> world option" where
  "run [] w = Some w"
| "run (ev # evs) w = (case step ev w of None \<Rightarrow> None | Some w' \<Rightarrow> run evs w')"

text \<open>
  A client as the constructor leaves it (\<^verbatim>\<open>_renewToken = null\<close>), with the callback
  set by its owner or not, and no call in progress.
\<close>

definition initial :: "string \<Rightarrow> bool \<Rightarrow> world" where
  "initial tok cb =
     \<lparr> api = \<lparr> token = tok, onTokenExpired = cb, renewToken = None \<rparr>,
       invocations = 0, callers = [] \<rparr>"

subsection \<open>Predicates on calls and replies\<close>

text \<open>
  A reply that signals token-expired: status 200 and an envelope whose status is
  \<^verbatim>\<open>TOKEN_EXPIRED\<close>, whatever else it carries.
\<close>

definition token_expired_reply :: "coral_reply \<Rightarrow> bool" where
  "token_expired_reply reply =
     (case reply of
        Response st txt (Some d) \<Rightarrow> st = 200 \<and> status d = TOKEN_EXPIRED
      | _ \<Rightarrow> False)"

text \<open>A call whose request is on its way, and a call that awaits the stored promise \<^verbatim>\<open>p\<close>.\<close>

definition awaiting_response :: "caller \<Rightarrow> bool" where
  "awaiting_response c = (case task c of Fetch Await_response au a k \<Rightarrow> True | _ \<Rightarrow> False)"

definition waits_for :: "nat \<Rightarrow> caller \<Rightarrow> bool" where
  "waits_for p c =
     (case task c of
        Fetch (Await_renewToken q) au a k \<Rightarrow> q = p
      | Wst_await_renewToken q a \<Rightarrow> q = p
      | _ \<Rightarrow> False)"

text \<open>
  What holds of every call in every world the event loop can reach, given the stored
  promise \<^verbatim>\<open>m\<close>: a call that awaits a promise awaits the stored one; a
  \<^verbatim>\<open>fetch\<close> inside \<^verbatim>\<open>getWebServiceToken\<close> has \<^verbatim>\<open>_autoRenewToken = false\<close>
  and \<^verbatim>\<open>_attempt = 0\<close>; and the number of requests a call has sent is bounded by
  where it stands, a call on attempt 0 having sent none before its request and one with it.
\<close>

definition caller_ok :: "nat option \<Rightarrow> caller \<Rightarrow> bool" where
  "caller_ok m c =
     (case task c of
        Fetch (Await_renewToken q) au a k \<Rightarrow>
          m = Some q \<and> k = None \<and> au \<and> length (sent c) \<le> 1 \<and> (a = 0 \<longrightarrow> sent c = [])
      | Fetch Await_response au a None \<Rightarrow>
          1 \<le> length (sent c) \<and> length (sent c) \<le> 2 \<and> (a = 0 \<longrightarrow> length (sent c) = 1)
      | Fetch Await_response au a (Some wa) \<Rightarrow>
          \<not> au \<and> a = 0 \<and> 1 \<le> length (sent c) \<and> length (sent c) \<le> 2
          \<and> (wa = 0 \<longrightarrow> length (sent c) = 1)
      | Wst_await_renewToken q a \<Rightarrow>
          m = Some q \<and> length (sent c) \<le> 1 \<and> (a = 0 \<longrightarrow> sent c = [])
      | Wst_await_f a \<Rightarrow> length (sent c) \<le> 1 \<and> (a = 0 \<longrightarrow> sent c = [])
      | Settled r \<Rightarrow> length (sent c) \<le> 2)"

definition world_ok :: "world \<Rightarrow> bool" where
  "world_ok w = list_all (caller_ok (renewToken (api w))) (callers w)"

text \<open>
  A reply whose body reads as an envelope with the status \<^verbatim>\<open>TOKEN_EXPIRED\<close>, whatever
  its HTTP status: the \<^verbatim>\<open>ErrorResponse\<close> that \<^verbatim>\<open>fetch\<close> throws for it, when it
  throws one, passes the test of the \<^verbatim>\<open>catch\<close> block of
  \<^verbatim>\<open>getWebServiceToken\<close>.
\<close>

definition token_expired_body :: "coral_reply \<Rightarrow> bool" where
  "token_expired_body reply =
     (case reply of
        Response st txt (Some d) \<Rightarrow> status d = TOKEN_EXPIRED
      | _ \<Rightarrow> False)"

text \<open>
  The event that ends a renewal, and the worlds of the time from a moment at which no
  renewal is pending and the callback has been invoked \<^verbatim>\<open>p\<close> times to the end of the
  next renewal: either nothing has changed, or the one renewal \<^verbatim>\<open>p\<close> is pending.
\<close>

definition is_renewal_settles :: "event \<Rightarrow> bool" where
  "is_renewal_settles ev = (case ev of Renewal_settles outcome \<Rightarrow> True | _ \<Rightarrow> False)"

definition in_period :: "nat \<Rightarrow> world \<Rightarrow> bool" where
  "in_period p w =
     (renewToken (api w) = None \<and> invocations w = p
      \<or> renewToken (api w) = Some p \<and> invocations w = Suc p)"

section \<open>Concrete inputs\<close>

text \<open>Concrete objects for the closed theorems below.\<close>

definition flow0 :: NintendoAccountSessionAuthorisation where
  "flow0 = \<lparr> client_id = ''71b963c1b7b6d119'', scope = ''openid user'',
             authorise_url = ''https://accounts.nintendo.com/connect/1.0.0/authorize?state=S'',
             state = ''S'', verifier = ''V'', redirect_uri = ''npf71b963c1b7b6d119://auth'',
             result = None \<rparr>"

definition offline :: transport where
  "offline = (\<lambda>_. No_reply ''offline'')"

definition expired_401 :: coral_reply where
  "expired_401 = Response 401 ''{}''
                   (Some \<lparr> status = TOKEN_EXPIRED, errorMessage = Some ''Token expired.'',
                           result_value = [], correlationId = ''c'' \<rparr>)"

definition ok_reply :: coral_reply where
  "ok_reply = Response 200 ''{}''
                (Some \<lparr> status = OK, errorMessage = None, result_value = ''r'',
                        correlationId = ''c'' \<rparr>)"

definition expired :: coral_reply where
  "expired = Response 200 [] (Some \<lparr> status = TOKEN_EXPIRED, errorMessage = Some ''Token expired.'',
                                      result_value = [], correlationId = ''c'' \<rparr>)"



section \<open>Properties of the authorisation object\<close>

text \<open>
  Claim C4, as the code has it. On an object that has not completed, a callback whose
  state is given and differs from the stored state fails with
  \<^verbatim>\<open>TypeError('Invalid state')\<close>; the object is unchanged and the list of issued
  requests is the one before the call, so no network call was attempted. The state of a
  query string is its \<^verbatim>\<open>state\<close> parameter (\<^verbatim>\<open>null\<close> when it has none, which is
  a mismatch too); the state of the raw form is the second argument, given when it is not
  \<^verbatim>\<open>undefined\<close>.
\<close>

theorem getSessionToken_state_mismatch_fails_closed:
  assumes "result this = None"
    and "callback_state code_in state_in \<noteq> Undefined"
    and "callback_state code_in state_in \<noteq> Str (state this)"
  shows "getSessionToken net this code_in state_in reqs
           = (Inl (TypeError ''Invalid state''), this, reqs)"
  using assms
  by (cases code_in) (auto simp: getSessionToken_def callback_state_def Let_def)

theorem getSessionToken_state_mismatch_fails_closed_witness:
  "result flow0 = None
   \<and> callback_state (Code_params [(''state'', ''X''), (''session_token_code'', ''c0de'')]) Undefined
        \<noteq> Undefined
   \<and> callback_state (Code_params [(''state'', ''X''), (''session_token_code'', ''c0de'')]) Undefined
        \<noteq> Str (state flow0)
   \<and> getSessionToken offline flow0
        (Code_params [(''state'', ''X''), (''session_token_code'', ''c0de'')]) Undefined []
      = (Inl (TypeError ''Invalid state''), flow0, [])"
  using getSessionToken_state_mismatch_fails_closed
          [of flow0 "Code_params [(''state'', ''X''), (''session_token_code'', ''c0de'')]"
              Undefined offline "[]"]
  by (simp add: flow0_def callback_state_def params_get_def)

text \<open>
  Claim C4 as stated fails at two inputs. On an object that has already completed, a
  mismatched state is answered by \<^verbatim>\<open>Error('... already completed')\<close>, the first check
  of the method, not by the invalid-state error. On a fresh object, the raw form with the
  state argument left out is not checked at all: the request goes out.
\<close>

theorem getSessionToken_state_mismatch_counterexample:
  "callback_state (Code_string ''c0de'') (Str ''X'')
     \<noteq> Str (state (flow0\<lparr>result := Some (Str ''S'', ''c0de'')\<rparr>))
   \<and> getSessionToken offline (flow0\<lparr>result := Some (Str ''S'', ''c0de'')\<rparr>)
        (Code_string ''c0de'') (Str ''X'') []
      = (Inl (Error ''NintendoAccountSessionAuthorisation already completed''),
         flow0\<lparr>result := Some (Str ''S'', ''c0de'')\<rparr>, [])
   \<and> callback_state (Code_string ''c0de'') Undefined \<noteq> Str (state flow0)
   \<and> getSessionToken offline flow0 (Code_string ''c0de'') Undefined []
      = (Inl (Fetch_rejected ''offline''), flow0\<lparr>result := Some (Undefined, ''c0de'')\<rparr>,
         [session_token_request ''c0de'' ''V'' ''71b963c1b7b6d119''])"
  by (simp add: getSessionToken_def callback_state_def flow0_def offline_def
        getNintendoAccountSessionToken_def Let_def)

section \<open>Properties of the PKCE challenge\<close>

lemma length_base64url: "length (base64url bs) = (4 * length bs + 2) div 3"
  by (induction bs rule: base64url.induct) auto

lemma b64_in: "b64 n \<in> set base64url_alphabet"
  unfolding b64_def by (rule nth_mem) (simp add: base64url_alphabet_def)

lemma base64url_chars: "set (base64url bs) \<subseteq> set base64url_alphabet"
  by (induction bs rule: base64url.induct) (auto simp: b64_in)

lemma takeWhile_nth_distinct:
  "distinct xs \<Longrightarrow> n < length xs \<Longrightarrow> length (takeWhile (\<lambda>x. x \<noteq> xs ! n) xs) = n"
proof (induction xs arbitrary: n)
  case Nil then show ?case by simp
next
  case (Cons a xs)
  show ?case
  proof (cases n)
    case 0 then show ?thesis by simp
  next
    case (Suc m)
    with Cons.prems have "m < length xs" "distinct xs" "a \<noteq> xs ! m" by auto
    with Cons.IH[of m] Suc show ?thesis by simp
  qed
qed

lemma distinct_alphabet: "distinct base64url_alphabet"
  by (simp add: base64url_alphabet_def)

lemma b64_index_b64: "n < 64 \<Longrightarrow> b64_index (b64 n) = n"
  unfolding b64_index_def b64_def
  using takeWhile_nth_distinct[OF distinct_alphabet, of n]
  by (simp add: base64url_alphabet_def)

lemma unat_byte: "unat (a :: byte) < 256"
  using unsigned_less[of a, where 'a = nat] by simp

lemma byte_parts:
  fixes b :: byte
  shows "unat b div 16 div 16 = 0" "unat b div 16 mod 16 = unat b div 16"
    "unat b div 64 div 4 = 0" "unat b div 64 mod 4 = unat b div 64"
  using unat_byte[of b] by simp_all

lemma sextets:
  fixes a b c :: byte
  shows "unat a div 4 < 64" "unat a mod 4 * 16 + unat b div 16 < 64"
    "unat b mod 16 * 4 + unat c div 64 < 64" "unat c mod 64 < 64"
    "unat b mod 16 * 4 < 64" "unat a mod 4 * 16 < 64"
  using unat_byte[of a] unat_byte[of b] unat_byte[of c] by simp_all

lemma base64url_decode_encode: "base64url_decode (base64url bs) = bs"
proof (induction bs rule: base64url.induct)
  case (1 a b c rest)
  then show ?case
    by (simp add: b64_index_b64 sextets byte_parts del: of_nat_add of_nat_mult)
next
  case (2 a b)
  then show ?case
    by (simp add: b64_index_b64 sextets byte_parts del: of_nat_add of_nat_mult)
next
  case (3 a)
  then show ?case
    by (simp add: b64_index_b64 sextets byte_parts del: of_nat_add of_nat_mult)
next
  case 4 then show ?case by simp
qed

lemma inj_base64url: "inj base64url"
  by (rule inj_on_inverseI[where g = base64url_decode]) (rule base64url_decode_encode)

lemma urlencode_plain: "set s \<subseteq> set urlencoded_plain \<Longrightarrow> urlencode s = s"
proof (induction s)
  case Nil then show ?case by (simp add: urlencode_def)
next
  case (Cons c s)
  then have "c \<in> set urlencoded_plain" "c \<noteq> CHR '' ''" by (auto simp: urlencoded_plain_def)
  with Cons show ?case by (simp add: urlencode_def urlencode_byte_def)
qed

lemma alphabet_plain: "set base64url_alphabet \<subseteq> set urlencoded_plain"
  by (simp add: base64url_alphabet_def urlencoded_plain_def)

lemma urlencode_base64url: "urlencode (base64url bs) = base64url bs"
  by (rule urlencode_plain) (use base64url_chars alphabet_plain in blast)


lemma urlencode_keys:
  "urlencode ''state'' = ''state''"
  "urlencode ''redirect_uri'' = ''redirect_uri''"
  "urlencode ''client_id'' = ''client_id''"
  "urlencode ''scope'' = ''scope''"
  "urlencode ''response_type'' = ''response_type''"
  "urlencode ''session_token_code'' = ''session_token_code''"
  "urlencode ''session_token_code_challenge'' = ''session_token_code_challenge''"
  "urlencode ''session_token_code_challenge_method'' = ''session_token_code_challenge_method''"
  "urlencode ''S256'' = ''S256''"
  "urlencode ''theme'' = ''theme''"
  "urlencode ''login_form'' = ''login_form''"
  by (rule urlencode_plain, simp add: urlencoded_plain_def)+

lemma stake_sdrop_add: "sdrop 32 (sdrop 36 src) = sdrop 68 src"
  by (simp add: sdrop_add[symmetric])

text \<open>
  Claim C5. For every client id, scope, redirect URI, hash function and generator,
  \<^verbatim>\<open>generateAuthData\<close> returns a challenge that is the base64url encoding of the
  SHA-256 digest of the verifier, and an authorise URL that carries this challenge with
  the challenge method \<^verbatim>\<open>S256\<close>. The state is the URL-safe encoding of the first 36
  bytes drawn from the generator and the verifier that of the next 32: 48 and 43
  characters of the base64url alphabet, from which the bytes can be read back, so none of
  the randomness is lost. The only effect is that the generator has advanced by these 68
  bytes.
\<close>

theorem generateAuthData_pkce:
  "(let (d, src') = generateAuthData sha256 cid sc ru src in
      ad_challenge d = base64url (sha256 (utf8 (ad_verifier d)))
    \<and> ad_url d = ''https://accounts.nintendo.com/connect/1.0.0/authorize?state='' @ ad_state d
         @ ''&redirect_uri='' @ urlencode (default_redirect_uri cid ru)
         @ ''&client_id='' @ urlencode cid
         @ ''&scope='' @ urlencode (scope_string sc)
         @ ''&response_type=session_token_code&session_token_code_challenge='' @ ad_challenge d
         @ ''&session_token_code_challenge_method=S256&theme=login_form''
    \<and> ad_state d = base64url (stake 36 src)
    \<and> ad_verifier d = base64url (stake 32 (sdrop 36 src))
    \<and> base64url_decode (ad_state d) = stake 36 src
    \<and> base64url_decode (ad_verifier d) = stake 32 (sdrop 36 src)
    \<and> length (ad_state d) = 48 \<and> length (ad_verifier d) = 43
    \<and> set (ad_state d) \<subseteq> set base64url_alphabet
    \<and> set (ad_verifier d) \<subseteq> set base64url_alphabet
    \<and> src' = sdrop 68 src)"
  by (simp add: generateAuthData_def randomBytes_def Let_def authorise_params_def
        params_toString_def urlencode_keys urlencode_base64url base64url_decode_encode
        length_base64url base64url_chars stake_sdrop_add)

section \<open>Properties of the Coral client\<close>

subsection \<open>The invariant of the event loop\<close>

lemma caller_ok_None: "caller_ok None c \<Longrightarrow> caller_ok m c"
  by (auto simp: caller_ok_def split: task.splits fetch_pc.splits option.splits)

lemma callers_ok_renew:
  "list_all (caller_ok (renewToken (fst s))) cs \<Longrightarrow> list_all (caller_ok (renewToken (fst (renew s)))) cs"
  by (cases "renewToken (fst s)") (auto simp: renew_def list_all_iff intro: caller_ok_None)

lemma renew_Some: "\<exists>p. renewToken (fst (renew s)) = Some p"
  by (cases "renewToken (fst s)") (auto simp: renew_def)

lemma fetch_enter_ok:
  "length snt \<le> 1 \<Longrightarrow> (a = 0 \<longrightarrow> snt = [])
   \<Longrightarrow> caller_ok (renewToken this) (fetch_enter this au a None snt)"
  by (auto simp: caller_ok_def fetch_enter_def split: option.splits)

lemma fetch_enter_nested_ok:
  "length snt \<le> 1 \<Longrightarrow> (wa = 0 \<longrightarrow> snt = [])
   \<Longrightarrow> caller_ok (renewToken this) (fetch_enter this False 0 (Some wa) snt)"
  by (auto simp: caller_ok_def fetch_enter_def split: option.splits)

lemma wst_enter_ok:
  "length snt \<le> 1 \<Longrightarrow> (a = 0 \<longrightarrow> snt = []) \<Longrightarrow> caller_ok (renewToken this) (wst_enter this a snt)"
  by (auto simp: caller_ok_def wst_enter_def split: option.splits)

lemma token_expired_has_data: "token_expired_error err \<Longrightarrow> \<not> data_undefined err"
  by (auto simp: token_expired_error_def data_undefined_def split: coral_error.splits option.splits)

lemma settled_ok: "length snt \<le> 2 \<Longrightarrow> caller_ok m \<lparr> task = Settled r, sent = snt \<rparr>"
  by (simp add: caller_ok_def)

lemma fetch_settles_ok:
  assumes "length snt \<le> 2" "k = Some 0 \<longrightarrow> length snt = 1"
  shows "caller_ok (renewToken (fst (fst (fetch_settles s k r snt)))) (snd (fetch_settles s k r snt))"
proof (cases "\<exists>err. k = Some 0 \<and> r = Inl err \<and> token_expired_error err \<and> onTokenExpired (fst s)")
  case True
  then obtain err where *: "k = Some 0" "r = Inl err" "token_expired_error err" "onTokenExpired (fst s)"
    by blast
  then have "fetch_settles s k r snt = (renew s, wst_enter (fst (renew s)) 1 snt)"
    by (simp add: fetch_settles_def Let_def token_expired_has_data)
  moreover have "caller_ok (renewToken (fst (renew s))) (wst_enter (fst (renew s)) 1 snt)"
    using assms * by (intro wst_enter_ok) auto
  ultimately show ?thesis by simp
next
  case False
  then have "\<exists>r'. fetch_settles s k r snt = (s, \<lparr> task = Settled r', sent = snt \<rparr>)"
    by (auto simp: fetch_settles_def split: option.splits sum.splits)
  then show ?thesis using assms(1) by (auto intro: settled_ok)
qed

lemma fetch_settles_client:
  "fst (fetch_settles s k r snt) = s \<or> fst (fetch_settles s k r snt) = renew s"
  by (auto simp: fetch_settles_def Let_def split: option.splits sum.splits)

lemma fetch_response_Retry:
  "fetch_response this au a reply = Retry \<Longrightarrow> au \<and> a = 0 \<and> onTokenExpired this"
  by (auto simp: fetch_response_def split: coral_reply.splits option.splits if_splits)

lemma response_arrives_ok:
  assumes "response_arrives s c reply = Some (s', c')" and "caller_ok (renewToken (fst s)) c"
  shows "caller_ok (renewToken (fst s')) c'" and "s' = s \<or> s' = renew s"
proof -
  from assms(1) obtain au a k where t: "task c = Fetch Await_response au a k"
    by (auto simp: response_arrives_def split: task.splits fetch_pc.splits)
  from assms(2) t have len: "1 \<le> length (sent c)" "length (sent c) \<le> 2"
    and a0: "k = None \<Longrightarrow> a = 0 \<Longrightarrow> length (sent c) = 1"
    and nested: "\<And>wa. k = Some wa \<Longrightarrow> \<not> au \<and> a = 0 \<and> (wa = 0 \<longrightarrow> length (sent c) = 1)"
    by (auto simp: caller_ok_def split: option.splits)
  show "caller_ok (renewToken (fst s')) c'"
  proof (cases "fetch_response (fst s) au a reply")
    case Retry
    then have g: "au" "a = 0" using fetch_response_Retry by blast+
    with nested have k: "k = None" by (cases k) auto
    from assms(1) t Retry have eq: "s' = renew s" "c' = fetch_enter (fst (renew s)) au (a + 1) k (sent c)"
      by (auto simp: response_arrives_def Let_def)
    show ?thesis unfolding eq k using a0[OF k g(2)] by (intro fetch_enter_ok) auto
  next
    case (Throw err)
    with assms(1) t have eq: "(s', c') = fetch_settles s k (Inl err) (sent c)"
      by (auto simp: response_arrives_def)
    have "caller_ok (renewToken (fst (fst (fetch_settles s k (Inl err) (sent c))))) (snd (fetch_settles s k (Inl err) (sent c)))"
      using len nested by (intro fetch_settles_ok) auto
    then show ?thesis using eq by (metis fst_conv snd_conv)
  next
    case (Return v)
    with assms(1) t have eq: "(s', c') = fetch_settles s k (Inr v) (sent c)"
      by (auto simp: response_arrives_def)
    have "caller_ok (renewToken (fst (fst (fetch_settles s k (Inr v) (sent c))))) (snd (fetch_settles s k (Inr v) (sent c)))"
      using len nested by (intro fetch_settles_ok) auto
    then show ?thesis using eq by (metis fst_conv snd_conv)
  qed
  show "s' = s \<or> s' = renew s"
    using assms(1) t fetch_settles_client[of s k]
    by (auto simp: response_arrives_def Let_def split: fetch_next.splits) (metis fst_conv)+
qed

lemma f_settles_ok:
  assumes "f_settles s c failure = Some (s', c')" and "caller_ok (renewToken (fst s)) c"
  shows "caller_ok (renewToken (fst s')) c'" and "s' = s"
proof -
  from assms(1) obtain a where t: "task c = Wst_await_f a"
    by (auto simp: f_settles_def split: task.splits)
  from assms(2) t have len: "length (sent c) \<le> 1" "a = 0 \<longrightarrow> sent c = []"
    by (auto simp: caller_ok_def)
  from assms(1) t show "s' = s" by (auto simp: f_settles_def split: option.splits)
  from assms(1) t len show "caller_ok (renewToken (fst s')) c'"
    by (cases failure) (auto simp: f_settles_def intro!: settled_ok fetch_enter_nested_ok)
qed

lemma resume_ok:
  assumes "caller_ok (Some p) c"
  shows "fst (resume p failure s c) = s" and "caller_ok None (snd (resume p failure s c))"
  using assms
  by (auto simp: resume_def caller_ok_def fetch_settles_def
           split: task.splits fetch_pc.splits option.splits)

lemma resume_failure:
  assumes "caller_ok (Some p) c"
  shows "resume p (Some e) s c = (s, if waits_for p c then c\<lparr> task := Settled (Inl e) \<rparr> else c)"
  using assms
  by (auto simp: resume_def caller_ok_def fetch_settles_def waits_for_def
           split: task.splits fetch_pc.splits option.splits)

lemma resume_waiters_ok:
  assumes "list_all (caller_ok (Some p)) cs"
  shows "resume_waiters p failure s cs = (s, map (\<lambda>c. snd (resume p failure s c)) cs)"
  using assms
proof (induction cs)
  case Nil then show ?case by simp
next
  case (Cons c cs)
  then have "fst (resume p failure s c) = s" by (simp add: resume_ok)
  then obtain c' where c': "resume p failure s c = (s, c')" by (metis prod.collapse)
  from Cons have "resume_waiters p failure s cs = (s, map (\<lambda>c. snd (resume p failure s c)) cs)"
    by simp
  with c' show ?case by simp
qed

lemma list_all_update: "list_all P xs \<Longrightarrow> P x \<Longrightarrow> list_all P (xs[i := x])"
  unfolding list_all_iff using set_update_subset_insert[of xs i x] by blast

lemma step_simps:
  "step (Call_fetch au a) w = Some (w\<lparr> callers := callers w @ [fetch_enter (api w) au a None []] \<rparr>)"
  "step (Call_getWebServiceToken a) w = Some (w\<lparr> callers := callers w @ [wst_enter (api w) a []] \<rparr>)"
  "step (Response_arrives i reply) w =
     (if i < length (callers w)
      then map_option (put_caller w i) (response_arrives (api w, invocations w) (callers w ! i) reply)
      else None)"
  "step (F_settles i failure) w =
     (if i < length (callers w)
      then map_option (put_caller w i) (f_settles (api w, invocations w) (callers w ! i) failure)
      else None)"
  "step (Renewal_settles outcome) w =
     map_option (\<lambda>(s, cs). \<lparr> api = fst s, invocations = snd s, callers = cs \<rparr>)
       (renewal_settles (api w, invocations w) (callers w) outcome)"
  by (simp_all add: step_def)

lemma renewal_settles_ok:
  assumes "renewToken this = Some p" and "list_all (caller_ok (Some p)) cs"
  shows "renewal_settles (this, n) cs outcome
           = Some (((case outcome of Inr (Some t) \<Rightarrow> setTokenWithSavedToken this t | _ \<Rightarrow> this)
                      \<lparr> renewToken := None \<rparr>, n),
                   map (\<lambda>c. snd (resume p (case outcome of Inl e \<Rightarrow> Some e | Inr _ \<Rightarrow> None)
                           ((case outcome of Inr (Some t) \<Rightarrow> setTokenWithSavedToken this t
                             | _ \<Rightarrow> this)\<lparr> renewToken := None \<rparr>, n) c)) cs)"
  using assms(1)
  by (simp add: renewal_settles_def Let_def resume_waiters_ok[OF assms(2)]
           split: sum.splits option.splits)

lemma step_ok:
  assumes "world_ok w" and "step ev w = Some w'"
  shows "world_ok w'"
proof (cases ev)
  case (Call_fetch au a)
  with assms(2) have "w' = w\<lparr> callers := callers w @ [fetch_enter (api w) au a None []] \<rparr>"
    by (simp add: step_simps)
  moreover have "caller_ok (renewToken (api w)) (fetch_enter (api w) au a None [])"
    by (rule fetch_enter_ok) simp_all
  ultimately show ?thesis using assms(1) by (simp add: world_ok_def)
next
  case (Call_getWebServiceToken a)
  with assms(2) have "w' = w\<lparr> callers := callers w @ [wst_enter (api w) a []] \<rparr>"
    by (simp add: step_simps)
  moreover have "caller_ok (renewToken (api w)) (wst_enter (api w) a [])"
    by (rule wst_enter_ok) simp_all
  ultimately show ?thesis using assms(1) by (simp add: world_ok_def)
next
  case (Response_arrives i reply)
  with assms(2) have i: "i < length (callers w)"
    by (simp add: step_simps split: if_splits)
  with assms(2) Response_arrives obtain sc
    where r: "response_arrives (api w, invocations w) (callers w ! i) reply = Some sc"
      and w': "w' = put_caller w i sc"
    by (auto simp: step_simps)
  obtain s' c' where sc: "sc = (s', c')" by (cases sc)
  from assms(1) i have "caller_ok (renewToken (fst (api w, invocations w))) (callers w ! i)"
    by (simp add: world_ok_def list_all_length)
  from response_arrives_ok[OF r[unfolded sc] this]
  have c': "caller_ok (renewToken (fst s')) c'"
    and s': "s' = (api w, invocations w) \<or> s' = renew (api w, invocations w)"
    by blast+
  have "list_all (caller_ok (renewToken (fst (api w, invocations w)))) (callers w)"
    using assms(1) by (simp add: world_ok_def)
  with s' have "list_all (caller_ok (renewToken (fst s'))) (callers w)"
    using callers_ok_renew[of "(api w, invocations w)" "callers w"] by blast
  with c' show ?thesis unfolding w' sc by (simp add: world_ok_def put_caller_def list_all_update)
next
  case (F_settles i failure)
  with assms(2) have i: "i < length (callers w)"
    by (simp add: step_simps split: if_splits)
  with assms(2) F_settles obtain sc
    where r: "f_settles (api w, invocations w) (callers w ! i) failure = Some sc"
      and w': "w' = put_caller w i sc"
    by (auto simp: step_simps)
  obtain s' c' where sc: "sc = (s', c')" by (cases sc)
  from assms(1) i have "caller_ok (renewToken (fst (api w, invocations w))) (callers w ! i)"
    by (simp add: world_ok_def list_all_length)
  from f_settles_ok[OF r[unfolded sc] this]
  have c': "caller_ok (renewToken (fst s')) c'" and s': "s' = (api w, invocations w)"
    by blast+
  with assms(1) show ?thesis unfolding w' sc
    by (simp add: world_ok_def put_caller_def list_all_update)
next
  case (Renewal_settles outcome)
  with assms(2) obtain p where p: "renewToken (api w) = Some p"
    by (cases "renewToken (api w)") (simp_all add: step_simps renewal_settles_def)
  with assms(1) have ok: "list_all (caller_ok (Some p)) (callers w)" by (simp add: world_ok_def)
  define failure where "failure = (case outcome of Inl e \<Rightarrow> Some e | Inr _ \<Rightarrow> None)"
  define s' where "s' = ((case outcome of Inr (Some t) \<Rightarrow> setTokenWithSavedToken (api w) t
                         | _ \<Rightarrow> api w)\<lparr> renewToken := None \<rparr>, invocations w)"
  have "renewal_settles (api w, invocations w) (callers w) outcome
          = Some (s', map (\<lambda>c. snd (resume p failure s' c)) (callers w))"
    using renewal_settles_ok[OF p ok, of "invocations w" outcome]
    by (simp add: failure_def s'_def)
  with assms(2) Renewal_settles
  have w': "w' = \<lparr> api = fst s', invocations = snd s',
                   callers = map (\<lambda>c. snd (resume p failure s' c)) (callers w) \<rparr>"
    by (simp add: step_simps)
  have "renewToken (fst s') = None" by (simp add: s'_def)
  moreover have "list_all (caller_ok None) (map (\<lambda>c. snd (resume p failure s' c)) (callers w))"
    using ok by (simp add: list_all_iff resume_ok)
  ultimately show ?thesis unfolding w' by (simp add: world_ok_def)
qed

lemma initial_ok: "world_ok (initial tok cb)"
  by (simp add: world_ok_def initial_def)

lemma run_ok: "world_ok w \<Longrightarrow> run evs w = Some w' \<Longrightarrow> world_ok w'"
  by (induction evs arbitrary: w) (auto split: option.splits dest: step_ok)

lemma token_expired_replyE:
  assumes "token_expired_reply reply"
  obtains tx d where "reply = Response 200 tx (Some d)" and "status d = TOKEN_EXPIRED"
  using assms by (auto simp: token_expired_reply_def split: coral_reply.splits option.splits)

lemma token_expired_bodyE:
  assumes "token_expired_body reply"
  obtains st tx d where "reply = Response st tx (Some d)" and "status d = TOKEN_EXPIRED"
  using assms by (auto simp: token_expired_body_def split: coral_reply.splits option.splits)

lemma token_expired_reply_body: "token_expired_reply reply \<Longrightarrow> token_expired_body reply"
  by (auto simp: token_expired_reply_def token_expired_body_def
           split: coral_reply.splits option.splits)

lemma fetch_response_expired_no_retry:
  assumes "token_expired_body reply" and "\<not> (au \<and> a = 0 \<and> onTokenExpired this)"
  shows "\<exists>err. fetch_response this au a reply = Throw err \<and> token_expired_error err"
proof -
  from assms(1) obtain st tx d where r: "reply = Response st tx (Some d)" "status d = TOKEN_EXPIRED"
    by (rule token_expired_bodyE)
  show ?thesis
  proof (cases "st = 200")
    case True
    with r assms(2) show ?thesis
      by (cases "errorMessage d") (auto simp: fetch_response_def token_expired_error_def)
  next
    case False
    with r show ?thesis by (simp add: fetch_response_def token_expired_error_def)
  qed
qed

lemma fetch_response_expired_retry:
  assumes "token_expired_reply reply" and "onTokenExpired this"
  shows "fetch_response this True 0 reply = Retry"
proof -
  from assms(1) obtain tx d where "reply = Response 200 tx (Some d)" "status d = TOKEN_EXPIRED"
    by (rule token_expired_replyE)
  with assms(2) show ?thesis by (simp add: fetch_response_def)
qed

lemma second_expiry_terminal:
  assumes "caller_ok m c" and "awaiting_response c" and "length (sent c) = 2"
    and "token_expired_body reply"
  shows "\<exists>err. response_arrives s c reply = Some (s, \<lparr> task = Settled (Inl err), sent = sent c \<rparr>)
               \<and> token_expired_error err"
proof -
  from assms(2) obtain au a k where t: "task c = Fetch Await_response au a k"
    by (auto simp: awaiting_response_def split: task.splits fetch_pc.splits)
  from assms(1,3) t have g: "k = None \<Longrightarrow> a \<noteq> 0" "\<And>wa. k = Some wa \<Longrightarrow> \<not> au \<and> wa \<noteq> 0"
    by (auto simp: caller_ok_def split: option.splits)
  then have "\<not> (au \<and> a = 0 \<and> onTokenExpired (fst s))" by (cases k) auto
  from fetch_response_expired_no_retry[OF assms(4) this]
  obtain err where e: "fetch_response (fst s) au a reply = Throw err" "token_expired_error err"
    by blast
  have "fetch_settles s k (Inl err) (sent c) = (s, \<lparr> task = Settled (Inl err), sent = sent c \<rparr>)"
    using g token_expired_has_data[OF e(2)] by (cases k) (auto simp: fetch_settles_def)
  with t e show ?thesis by (auto simp: response_arrives_def)
qed

lemma first_expiry_fetch:
  assumes "task c = Fetch Await_response True 0 None" and "onTokenExpired (fst s)"
    and "token_expired_reply reply"
  shows "\<exists>p. response_arrives s c reply
                = Some (renew s, \<lparr> task = Fetch (Await_renewToken p) True 1 None, sent = sent c \<rparr>)
             \<and> renewToken (fst (renew s)) = Some p"
proof -
  obtain p where p: "renewToken (fst (renew s)) = Some p" using renew_Some by blast
  moreover have "fetch_response (fst s) True 0 reply = Retry"
    using assms by (intro fetch_response_expired_retry)
  ultimately show ?thesis using assms(1)
    by (simp add: response_arrives_def Let_def fetch_enter_def)
qed

lemma first_expiry_wst:
  assumes "task c = Fetch Await_response False 0 (Some 0)" and "onTokenExpired (fst s)"
    and "token_expired_body reply"
  shows "\<exists>p. response_arrives s c reply
                = Some (renew s, \<lparr> task = Wst_await_renewToken p 1, sent = sent c \<rparr>)
             \<and> renewToken (fst (renew s)) = Some p"
proof -
  obtain p where p: "renewToken (fst (renew s)) = Some p" using renew_Some by blast
  from fetch_response_expired_no_retry[OF assms(3), of False 0 "fst s"]
  obtain err where e: "fetch_response (fst s) False 0 reply = Throw err" "token_expired_error err"
    by auto
  with p assms(1,2) token_expired_has_data[OF e(2)] show ?thesis
    by (simp add: response_arrives_def fetch_settles_def Let_def wst_enter_def)
qed

lemma step_response:
  assumes "i < length (callers w)"
    and "response_arrives (api w, invocations w) (callers w ! i) reply = Some (s', c')"
  shows "\<exists>w'. step (Response_arrives i reply) w = Some w' \<and> callers w' ! i = c'
            \<and> api w' = fst s' \<and> invocations w' = snd s'"
  using assms by (simp add: step_simps put_caller_def)

lemma step_f_resolved:
  assumes "i < length (callers w)" and "task (callers w ! i) = Wst_await_f a"
  shows "\<exists>w'. step (F_settles i None) w = Some w' \<and> api w' = api w
            \<and> invocations w' = invocations w
            \<and> callers w' ! i = \<lparr> task = Fetch Await_response False 0 (Some a),
                                  sent = sent (callers w ! i) @ [token (api w)] \<rparr>"
  using assms
  by (simp add: step_simps f_settles_def fetch_enter_def put_caller_def split: option.splits)

lemma resume_resolved:
  "task c = Fetch (Await_renewToken p) au a None
     \<Longrightarrow> snd (resume p None s c)
           = \<lparr> task = Fetch Await_response au a None, sent = sent c @ [token (fst s)] \<rparr>"
  "task c = Wst_await_renewToken p a
     \<Longrightarrow> snd (resume p None s c) = \<lparr> task = Wst_await_f a, sent = sent c \<rparr>"
  by (simp_all add: resume_def)

lemma step_renewal_resolved:
  assumes "world_ok w" and "renewToken (api w) = Some p"
  shows "\<exists>w'. step (Renewal_settles (Inr x)) w = Some w'
            \<and> token (api w') = (case x of Some t \<Rightarrow> t | None \<Rightarrow> token (api w))
            \<and> callers w' = map (\<lambda>c. snd (resume p None (api w', invocations w') c)) (callers w)"
proof -
  from assms have ok: "list_all (caller_ok (Some p)) (callers w)" by (simp add: world_ok_def)
  show ?thesis
    using renewal_settles_ok[OF assms(2) ok, of "invocations w" "Inr x"]
    by (cases x) (simp_all add: step_simps setTokenWithSavedToken_def)
qed

subsection \<open>One retry\<close>

text \<open>
  Claim C2. In every world that the event loop reaches from a fresh client, whatever calls
  were made and in whatever order the responses and renewals arrived, every call has sent
  at most two requests. A call whose second request is on its way and is answered by a
  token-expired body settles with the \<^verbatim>\<open>ErrorResponse\<close> of that body: no request is
  sent, no renewal is started, the client is unchanged. A \<^verbatim>\<open>fetch\<close> on attempt 0 with
  the default \<^verbatim>\<open>_autoRenewToken\<close> and a callback answers the first token-expired
  envelope by starting or joining the renewal and entering again with \<^verbatim>\<open>_attempt = 1\<close>,
  and \<^verbatim>\<open>getWebServiceToken\<close> on attempt 0 with a callback answers the token-expired
  failure of its request in the same way, entering again with attempt 1. The second entry
  does retry: when the renewal succeeds, the waiting \<^verbatim>\<open>fetch\<close> sends its request with
  the token of that moment, and the waiting \<^verbatim>\<open>getWebServiceToken\<close> goes on to
  \<^verbatim>\<open>f\<close> and, when \<^verbatim>\<open>f\<close> has answered, sends its request with the current token.
\<close>

theorem token_expired_retried_at_most_once:
  assumes "run evs (initial tok cb) = Some w" and "i < length (callers w)"
  shows "length (sent (callers w ! i)) \<le> 2
       \<and> (awaiting_response (callers w ! i) \<and> length (sent (callers w ! i)) = 2
            \<and> token_expired_body reply
          \<longrightarrow> (\<exists>w' err. step (Response_arrives i reply) w = Some w'
                 \<and> callers w' ! i = \<lparr> task = Settled (Inl err), sent = sent (callers w ! i) \<rparr>
                 \<and> token_expired_error err
                 \<and> api w' = api w \<and> invocations w' = invocations w))
       \<and> (task (callers w ! i) = Fetch Await_response True 0 None \<and> onTokenExpired (api w)
            \<and> token_expired_reply reply
          \<longrightarrow> (\<exists>w' p. step (Response_arrives i reply) w = Some w'
                 \<and> renewToken (api w') = Some p
                 \<and> callers w' ! i = \<lparr> task = Fetch (Await_renewToken p) True 1 None,
                                      sent = sent (callers w ! i) \<rparr>))
       \<and> (task (callers w ! i) = Fetch Await_response False 0 (Some 0) \<and> onTokenExpired (api w)
            \<and> token_expired_body reply
          \<longrightarrow> (\<exists>w' p. step (Response_arrives i reply) w = Some w'
                 \<and> renewToken (api w') = Some p
                 \<and> callers w' ! i = \<lparr> task = Wst_await_renewToken p 1,
                                      sent = sent (callers w ! i) \<rparr>))
       \<and> (task (callers w ! i) = Fetch (Await_renewToken q) au a None
          \<longrightarrow> (\<exists>w'. step (Renewal_settles (Inr x)) w = Some w'
                 \<and> token (api w') = (case x of Some t \<Rightarrow> t | None \<Rightarrow> token (api w))
                 \<and> callers w' ! i = \<lparr> task = Fetch Await_response au a None,
                                      sent = sent (callers w ! i) @ [token (api w')] \<rparr>))
       \<and> (task (callers w ! i) = Wst_await_renewToken q b
          \<longrightarrow> (\<exists>w'. step (Renewal_settles (Inr x)) w = Some w'
                 \<and> token (api w') = (case x of Some t \<Rightarrow> t | None \<Rightarrow> token (api w))
                 \<and> callers w' ! i = \<lparr> task = Wst_await_f b, sent = sent (callers w ! i) \<rparr>))
       \<and> (task (callers w ! i) = Wst_await_f c
          \<longrightarrow> (\<exists>w'. step (F_settles i None) w = Some w'
                 \<and> api w' = api w \<and> invocations w' = invocations w
                 \<and> callers w' ! i = \<lparr> task = Fetch Await_response False 0 (Some c),
                                      sent = sent (callers w ! i) @ [token (api w)] \<rparr>))"
proof -
  have wok: "world_ok w" using run_ok[OF initial_ok assms(1)] .
  with assms(2) have ok: "caller_ok (renewToken (api w)) (callers w ! i)"
    by (simp add: world_ok_def list_all_length)
  have bound: "length (sent (callers w ! i)) \<le> 2"
    using ok by (auto simp: caller_ok_def split: task.splits fetch_pc.splits option.splits)
  have second: "\<exists>w' err. step (Response_arrives i reply) w = Some w'
                 \<and> callers w' ! i = \<lparr> task = Settled (Inl err), sent = sent (callers w ! i) \<rparr>
                 \<and> token_expired_error err
                 \<and> api w' = api w \<and> invocations w' = invocations w"
    if "awaiting_response (callers w ! i)" "length (sent (callers w ! i)) = 2"
       "token_expired_body reply"
  proof -
    from second_expiry_terminal[OF ok that, of "(api w, invocations w)"]
    obtain err where e: "response_arrives (api w, invocations w) (callers w ! i) reply
        = Some ((api w, invocations w), \<lparr> task = Settled (Inl err), sent = sent (callers w ! i) \<rparr>)"
      "token_expired_error err" by blast
    from step_response[OF assms(2) e(1)] e(2) show ?thesis by auto
  qed
  have first_fetch: "\<exists>w' p. step (Response_arrives i reply) w = Some w'
                 \<and> renewToken (api w') = Some p
                 \<and> callers w' ! i = \<lparr> task = Fetch (Await_renewToken p) True 1 None,
                                      sent = sent (callers w ! i) \<rparr>"
    if "task (callers w ! i) = Fetch Await_response True 0 None" "onTokenExpired (api w)"
       "token_expired_reply reply"
  proof -
    from first_expiry_fetch[of "callers w ! i" "(api w, invocations w)" reply] that
    obtain p where p: "response_arrives (api w, invocations w) (callers w ! i) reply
        = Some (renew (api w, invocations w),
                \<lparr> task = Fetch (Await_renewToken p) True 1 None, sent = sent (callers w ! i) \<rparr>)"
      "renewToken (fst (renew (api w, invocations w))) = Some p" by auto
    from step_response[OF assms(2) p(1)] p(2) show ?thesis by auto
  qed
  have first_wst: "\<exists>w' p. step (Response_arrives i reply) w = Some w'
                 \<and> renewToken (api w') = Some p
                 \<and> callers w' ! i = \<lparr> task = Wst_await_renewToken p 1,
                                      sent = sent (callers w ! i) \<rparr>"
    if "task (callers w ! i) = Fetch Await_response False 0 (Some 0)" "onTokenExpired (api w)"
       "token_expired_body reply"
  proof -
    from first_expiry_wst[of "callers w ! i" "(api w, invocations w)" reply] that
    obtain p where p: "response_arrives (api w, invocations w) (callers w ! i) reply
        = Some (renew (api w, invocations w),
                \<lparr> task = Wst_await_renewToken p 1, sent = sent (callers w ! i) \<rparr>)"
      "renewToken (fst (renew (api w, invocations w))) = Some p" by auto
    from step_response[OF assms(2) p(1)] p(2) show ?thesis by auto
  qed
  have resumed_fetch: "\<exists>w'. step (Renewal_settles (Inr x)) w = Some w'
                 \<and> token (api w') = (case x of Some t \<Rightarrow> t | None \<Rightarrow> token (api w))
                 \<and> callers w' ! i = \<lparr> task = Fetch Await_response au a None,
                                      sent = sent (callers w ! i) @ [token (api w')] \<rparr>"
    if t: "task (callers w ! i) = Fetch (Await_renewToken q) au a None"
  proof -
    from ok t have m: "renewToken (api w) = Some q" by (simp add: caller_ok_def)
    from step_renewal_resolved[OF wok m, of x] obtain w'
      where w': "step (Renewal_settles (Inr x)) w = Some w'"
        "token (api w') = (case x of Some t \<Rightarrow> t | None \<Rightarrow> token (api w))"
        "callers w' = map (\<lambda>c. snd (resume q None (api w', invocations w') c)) (callers w)"
      by blast
    from w'(3) assms(2) t have "callers w' ! i = \<lparr> task = Fetch Await_response au a None,
                                      sent = sent (callers w ! i) @ [token (api w')] \<rparr>"
      by (simp add: resume_resolved)
    with w'(1,2) show ?thesis by blast
  qed
  have resumed_wst: "\<exists>w'. step (Renewal_settles (Inr x)) w = Some w'
                 \<and> token (api w') = (case x of Some t \<Rightarrow> t | None \<Rightarrow> token (api w))
                 \<and> callers w' ! i = \<lparr> task = Wst_await_f b, sent = sent (callers w ! i) \<rparr>"
    if t: "task (callers w ! i) = Wst_await_renewToken q b"
  proof -
    from ok t have m: "renewToken (api w) = Some q" by (simp add: caller_ok_def)
    from step_renewal_resolved[OF wok m, of x] obtain w'
      where w': "step (Renewal_settles (Inr x)) w = Some w'"
        "token (api w') = (case x of Some t \<Rightarrow> t | None \<Rightarrow> token (api w))"
        "callers w' = map (\<lambda>c. snd (resume q None (api w', invocations w') c)) (callers w)"
      by blast
    from w'(3) assms(2) t have "callers w' ! i = \<lparr> task = Wst_await_f b, sent = sent (callers w ! i) \<rparr>"
      by (simp add: resume_resolved)
    with w'(1,2) show ?thesis by blast
  qed
  have after_f: "\<exists>w'. step (F_settles i None) w = Some w'
                 \<and> api w' = api w \<and> invocations w' = invocations w
                 \<and> callers w' ! i = \<lparr> task = Fetch Await_response False 0 (Some c),
                                      sent = sent (callers w ! i) @ [token (api w)] \<rparr>"
    if "task (callers w ! i) = Wst_await_f c"
    using step_f_resolved[OF assms(2) that] .
  show ?thesis
    apply (intro conjI impI)
    subgoal by (rule bound)
    subgoal by (rule second) simp_all
    subgoal by (rule first_fetch) simp_all
    subgoal by (rule first_wst) simp_all
    subgoal by (rule resumed_fetch)
    subgoal by (rule resumed_wst)
    subgoal by (rule after_f)
    done
qed

lemmas run_defs = initial_def step_def fetch_enter_def wst_enter_def response_arrives_def
  fetch_response_def fetch_settles_def f_settles_def renewal_settles_def resume_def renew_def
  put_caller_def setTokenWithSavedToken_def token_expired_error_def data_undefined_def Let_def

theorem token_expired_retried_at_most_once_witness:
  "run [Call_fetch True 0, Response_arrives 0 expired, Renewal_settles (Inr (Some ''t1''))]
       (initial ''t0'' True)
     = Some \<lparr> api = \<lparr> token = ''t1'', onTokenExpired = True, renewToken = None \<rparr>,
              invocations = 1,
              callers = [\<lparr> task = Fetch Await_response True 1 None, sent = [''t0'', ''t1''] \<rparr>] \<rparr>
   \<and> (\<exists>w' err. step (Response_arrives 0 expired) 
           \<lparr> api = \<lparr> token = ''t1'', onTokenExpired = True, renewToken = None \<rparr>,
                   invocations = 1,
                   callers = [\<lparr> task = Fetch Await_response True 1 None, sent = [''t0'', ''t1''] \<rparr>] \<rparr>
           = Some w'
         \<and> callers w' ! 0 = \<lparr> task = Settled (Inl err), sent = [''t0'', ''t1''] \<rparr>
         \<and> token_expired_error err \<and> invocations w' = 1)
   \<and> run [Call_fetch True 0]
       (initial ''t0'' True)
     = Some \<lparr> api = \<lparr> token = ''t0'', onTokenExpired = True, renewToken = None \<rparr>,
              invocations = 0,
              callers = [\<lparr> task = Fetch Await_response True 0 None, sent = [''t0''] \<rparr>] \<rparr>
   \<and> (\<exists>w' p. step (Response_arrives 0 expired) 
           \<lparr> api = \<lparr> token = ''t0'', onTokenExpired = True, renewToken = None \<rparr>,
                   invocations = 0,
                   callers = [\<lparr> task = Fetch Await_response True 0 None, sent = [''t0''] \<rparr>] \<rparr>
           = Some w'
         \<and> renewToken (api w') = Some p
         \<and> callers w' ! 0 = \<lparr> task = Fetch (Await_renewToken p) True 1 None, sent = [''t0''] \<rparr>)
   \<and> run [Call_getWebServiceToken 0, F_settles 0 None]
       (initial ''t0'' True)
     = Some \<lparr> api = \<lparr> token = ''t0'', onTokenExpired = True, renewToken = None \<rparr>,
              invocations = 0,
              callers = [\<lparr> task = Fetch Await_response False 0 (Some 0), sent = [''t0''] \<rparr>] \<rparr>
   \<and> (\<exists>w' p. step (Response_arrives 0 expired_401) 
           \<lparr> api = \<lparr> token = ''t0'', onTokenExpired = True, renewToken = None \<rparr>,
                   invocations = 0,
                   callers = [\<lparr> task = Fetch Await_response False 0 (Some 0), sent = [''t0''] \<rparr>] \<rparr>
           = Some w'
         \<and> renewToken (api w') = Some p
         \<and> callers w' ! 0 = \<lparr> task = Wst_await_renewToken p 1, sent = [''t0''] \<rparr>)
   \<and> run [Call_fetch True 0, Response_arrives 0 expired]
       (initial ''t0'' True)
     = Some \<lparr> api = \<lparr> token = ''t0'', onTokenExpired = True, renewToken = Some 0 \<rparr>,
              invocations = 1,
              callers = [\<lparr> task = Fetch (Await_renewToken 0) True 1 None, sent = [''t0''] \<rparr>] \<rparr>
   \<and> (\<exists>w'. step (Renewal_settles (Inr (Some ''t1''))) 
           \<lparr> api = \<lparr> token = ''t0'', onTokenExpired = True, renewToken = Some 0 \<rparr>,
                   invocations = 1,
                   callers = [\<lparr> task = Fetch (Await_renewToken 0) True 1 None, sent = [''t0''] \<rparr>] \<rparr>
           = Some w'
         \<and> token (api w') = ''t1''
         \<and> callers w' ! 0 = \<lparr> task = Fetch Await_response True 1 None, sent = [''t0'', ''t1''] \<rparr>)
   \<and> run [Call_getWebServiceToken 0, F_settles 0 None, Response_arrives 0 expired_401]
       (initial ''t0'' True)
     = Some \<lparr> api = \<lparr> token = ''t0'', onTokenExpired = True, renewToken = Some 0 \<rparr>,
              invocations = 1,
              callers = [\<lparr> task = Wst_await_renewToken 0 1, sent = [''t0''] \<rparr>] \<rparr>
   \<and> (\<exists>w'. step (Renewal_settles (Inr (Some ''t1''))) 
           \<lparr> api = \<lparr> token = ''t0'', onTokenExpired = True, renewToken = Some 0 \<rparr>,
                   invocations = 1,
                   callers = [\<lparr> task = Wst_await_renewToken 0 1, sent = [''t0''] \<rparr>] \<rparr>
           = Some w'
         \<and> token (api w') = ''t1''
         \<and> callers w' ! 0 = \<lparr> task = Wst_await_f 1, sent = [''t0''] \<rparr>)
   \<and> run [Call_getWebServiceToken 0, F_settles 0 None, Response_arrives 0 expired_401,
         Renewal_settles (Inr (Some ''t1''))]
       (initial ''t0'' True)
     = Some \<lparr> api = \<lparr> token = ''t1'', onTokenExpired = True, renewToken = None \<rparr>,
              invocations = 1,
              callers = [\<lparr> task = Wst_await_f 1, sent = [''t0''] \<rparr>] \<rparr>
   \<and> (\<exists>w'. step (F_settles 0 None) 
           \<lparr> api = \<lparr> token = ''t1'', onTokenExpired = True, renewToken = None \<rparr>,
                   invocations = 1,
                   callers = [\<lparr> task = Wst_await_f 1, sent = [''t0''] \<rparr>] \<rparr>
           = Some w'
         \<and> callers w' ! 0 = \<lparr> task = Fetch Await_response False 0 (Some 1), sent = [''t0'', ''t1''] \<rparr>)
   \<and> run [Call_getWebServiceToken 0, F_settles 0 None, Response_arrives 0 expired_401,
         Renewal_settles (Inr (Some ''t1'')), F_settles 0 None]
       (initial ''t0'' True)
     = Some \<lparr> api = \<lparr> token = ''t1'', onTokenExpired = True, renewToken = None \<rparr>,
              invocations = 1,
              callers = [\<lparr> task = Fetch Await_response False 0 (Some 1), sent = [''t0'', ''t1''] \<rparr>] \<rparr>
   \<and> (\<exists>w' err. step (Response_arrives 0 expired_401) 
           \<lparr> api = \<lparr> token = ''t1'', onTokenExpired = True, renewToken = None \<rparr>,
                   invocations = 1,
                   callers = [\<lparr> task = Fetch Await_response False 0 (Some 1), sent = [''t0'', ''t1''] \<rparr>] \<rparr>
           = Some w'
         \<and> callers w' ! 0 = \<lparr> task = Settled (Inl err), sent = [''t0'', ''t1''] \<rparr>
         \<and> token_expired_error err \<and> invocations w' = 1)"
proof -
  let ?wa = "\<lparr> api = \<lparr> token = ''t1'', onTokenExpired = True, renewToken = None \<rparr>,
              invocations = 1,
              callers = [\<lparr> task = Fetch Await_response True 1 None, sent = [''t0'', ''t1''] \<rparr>] \<rparr>"
  let ?wb = "\<lparr> api = \<lparr> token = ''t0'', onTokenExpired = True, renewToken = None \<rparr>,
              invocations = 0,
              callers = [\<lparr> task = Fetch Await_response True 0 None, sent = [''t0''] \<rparr>] \<rparr>"
  let ?wc = "\<lparr> api = \<lparr> token = ''t0'', onTokenExpired = True, renewToken = None \<rparr>,
              invocations = 0,
              callers = [\<lparr> task = Fetch Await_response False 0 (Some 0), sent = [''t0''] \<rparr>] \<rparr>"
  let ?wd = "\<lparr> api = \<lparr> token = ''t0'', onTokenExpired = True, renewToken = Some 0 \<rparr>,
              invocations = 1,
              callers = [\<lparr> task = Fetch (Await_renewToken 0) True 1 None, sent = [''t0''] \<rparr>] \<rparr>"
  let ?we = "\<lparr> api = \<lparr> token = ''t0'', onTokenExpired = True, renewToken = Some 0 \<rparr>,
              invocations = 1,
              callers = [\<lparr> task = Wst_await_renewToken 0 1, sent = [''t0''] \<rparr>] \<rparr>"
  let ?wf = "\<lparr> api = \<lparr> token = ''t1'', onTokenExpired = True, renewToken = None \<rparr>,
              invocations = 1,
              callers = [\<lparr> task = Wst_await_f 1, sent = [''t0''] \<rparr>] \<rparr>"
  let ?wg = "\<lparr> api = \<lparr> token = ''t1'', onTokenExpired = True, renewToken = None \<rparr>,
              invocations = 1,
              callers = [\<lparr> task = Fetch Await_response False 0 (Some 1), sent = [''t0'', ''t1''] \<rparr>] \<rparr>"
  have ra: "run [Call_fetch True 0, Response_arrives 0 expired, Renewal_settles (Inr (Some ''t1''))]
       (initial ''t0'' True) = Some ?wa"
    by (simp add: run_defs expired_def expired_401_def)
  have rb: "run [Call_fetch True 0]
       (initial ''t0'' True) = Some ?wb"
    by (simp add: run_defs expired_def expired_401_def)
  have rc: "run [Call_getWebServiceToken 0, F_settles 0 None]
       (initial ''t0'' True) = Some ?wc"
    by (simp add: run_defs expired_def expired_401_def)
  have rd: "run [Call_fetch True 0, Response_arrives 0 expired]
       (initial ''t0'' True) = Some ?wd"
    by (simp add: run_defs expired_def expired_401_def)
  have re: "run [Call_getWebServiceToken 0, F_settles 0 None, Response_arrives 0 expired_401]
       (initial ''t0'' True) = Some ?we"
    by (simp add: run_defs expired_def expired_401_def)
  have rf: "run [Call_getWebServiceToken 0, F_settles 0 None, Response_arrives 0 expired_401,
         Renewal_settles (Inr (Some ''t1''))]
       (initial ''t0'' True) = Some ?wf"
    by (simp add: run_defs expired_def expired_401_def)
  have rg: "run [Call_getWebServiceToken 0, F_settles 0 None, Response_arrives 0 expired_401,
         Renewal_settles (Inr (Some ''t1'')), F_settles 0 None]
       (initial ''t0'' True) = Some ?wg"
    by (simp add: run_defs expired_def expired_401_def)
  have e: "token_expired_reply expired" "token_expired_body expired" "token_expired_body expired_401"
    by (simp_all add: token_expired_reply_def token_expired_body_def expired_def expired_401_def)
  have fa: "(\<exists>w' err. step (Response_arrives 0 expired) ?wa = Some w'
              \<and> callers w' ! 0 = \<lparr> task = Settled (Inl err), sent = [''t0'', ''t1''] \<rparr>
              \<and> token_expired_error err \<and> invocations w' = 1)"
    using token_expired_retried_at_most_once[OF ra, where i = 0 and reply = expired] e
    by (auto simp: awaiting_response_def)
  have fb: "(\<exists>w' p. step (Response_arrives 0 expired) ?wb = Some w'
              \<and> renewToken (api w') = Some p
              \<and> callers w' ! 0 = \<lparr> task = Fetch (Await_renewToken p) True 1 None, sent = [''t0''] \<rparr>)"
    using token_expired_retried_at_most_once[OF rb, where i = 0 and reply = expired] e
    by (auto simp: awaiting_response_def)
  have fc: "(\<exists>w' p. step (Response_arrives 0 expired_401) ?wc = Some w'
              \<and> renewToken (api w') = Some p
              \<and> callers w' ! 0 = \<lparr> task = Wst_await_renewToken p 1, sent = [''t0''] \<rparr>)"
    using token_expired_retried_at_most_once[OF rc, where i = 0 and reply = expired_401] e
    by (auto simp: awaiting_response_def)
  have fd: "(\<exists>w'. step (Renewal_settles (Inr (Some ''t1''))) ?wd = Some w'
              \<and> token (api w') = ''t1''
              \<and> callers w' ! 0 = \<lparr> task = Fetch Await_response True 1 None, sent = [''t0'', ''t1''] \<rparr>)"
    using token_expired_retried_at_most_once[OF rd, where i = 0 and q = 0 and au = True and a = 1 and x = "Some ''t1''"] e
    by (auto simp: awaiting_response_def)
  have fe: "(\<exists>w'. step (Renewal_settles (Inr (Some ''t1''))) ?we = Some w'
              \<and> token (api w') = ''t1''
              \<and> callers w' ! 0 = \<lparr> task = Wst_await_f 1, sent = [''t0''] \<rparr>)"
    using token_expired_retried_at_most_once[OF re, where i = 0 and q = 0 and b = 1 and x = "Some ''t1''"] e
    by (auto simp: awaiting_response_def)
  have ff: "(\<exists>w'. step (F_settles 0 None) ?wf = Some w'
              \<and> callers w' ! 0 = \<lparr> task = Fetch Await_response False 0 (Some 1), sent = [''t0'', ''t1''] \<rparr>)"
    using token_expired_retried_at_most_once[OF rf, where i = 0 and c = 1] e
    by (auto simp: awaiting_response_def)
  have fg: "(\<exists>w' err. step (Response_arrives 0 expired_401) ?wg = Some w'
              \<and> callers w' ! 0 = \<lparr> task = Settled (Inl err), sent = [''t0'', ''t1''] \<rparr>
              \<and> token_expired_error err \<and> invocations w' = 1)"
    using token_expired_retried_at_most_once[OF rg, where i = 0 and reply = expired_401] e
    by (auto simp: awaiting_response_def)
  from ra fa rb fb rc fc rd fd re fe rf ff rg fg show ?thesis by (intro conjI)
qed

subsection \<open>A renewal that fails\<close>

lemma not_waiting: "caller_ok None c \<Longrightarrow> \<not> waits_for q c"
  by (auto simp: caller_ok_def waits_for_def split: task.splits fetch_pc.splits)

lemma step_renewal_rejected:
  assumes "world_ok w" and "renewToken (api w) = Some p"
  shows "step (Renewal_settles (Inl e)) w
           = Some \<lparr> api = (api w)\<lparr> renewToken := None \<rparr>, invocations = invocations w,
                    callers = map (\<lambda>c. if waits_for p c then c\<lparr> task := Settled (Inl e) \<rparr> else c)
                                (callers w) \<rparr>"
proof -
  from assms have ok: "list_all (caller_ok (Some p)) (callers w)" by (simp add: world_ok_def)
  have "map (\<lambda>c. snd (resume p (Some e) ((api w)\<lparr> renewToken := None \<rparr>, invocations w) c)) (callers w)
          = map (\<lambda>c. if waits_for p c then c\<lparr> task := Settled (Inl e) \<rparr> else c) (callers w)"
    using ok by (intro map_cong refl) (simp add: list_all_iff resume_failure)
  with renewal_settles_ok[OF assms(2) ok, of "invocations w" "Inl e"]
  show ?thesis by (simp add: step_simps)
qed

text \<open>
  Claim C3. In every world that the event loop reaches from a fresh client in which a
  renewal is pending, if the promise of the callback rejects with any error then the
  step exists and: \<^verbatim>\<open>_renewToken\<close> is \<^verbatim>\<open>null\<close> again and the client is otherwise as it
  was, so the token is the previous one; every call that was waiting for the renewal,
  in \<^verbatim>\<open>fetch\<close> or in \<^verbatim>\<open>getWebServiceToken\<close>, has settled with that same error and
  has sent nothing, and every other call is untouched; no call is left waiting for any
  renewal; and a \<^verbatim>\<open>fetch\<close> called next sends its request at once with the previous token.
\<close>

theorem renewal_failure_atomic:
  assumes "run evs (initial tok cb) = Some w" and "renewToken (api w) = Some p"
  shows "\<exists>w'. step (Renewal_settles (Inl e)) w = Some w'
           \<and> api w' = (api w)\<lparr> renewToken := None \<rparr>
           \<and> renewToken (api w') = None
           \<and> token (api w') = token (api w)
           \<and> invocations w' = invocations w
           \<and> callers w' = map (\<lambda>c. if waits_for p c then c\<lparr> task := Settled (Inl e) \<rparr> else c)
                               (callers w)
           \<and> list_all (\<lambda>c. \<not> waits_for q c) (callers w')
           \<and> step (Call_fetch au a) w'
               = Some (w'\<lparr> callers := callers w' @ [\<lparr> task = Fetch Await_response au a None,
                                                       sent = [token (api w)] \<rparr>] \<rparr>)"
proof -
  have ok: "world_ok w" using run_ok[OF initial_ok assms(1)] .
  define w' where "w' = \<lparr> api = (api w)\<lparr> renewToken := None \<rparr>, invocations = invocations w,
                    callers = map (\<lambda>c. if waits_for p c then c\<lparr> task := Settled (Inl e) \<rparr> else c)
                                (callers w) \<rparr>"
  have st: "step (Renewal_settles (Inl e)) w = Some w'"
    unfolding w'_def by (rule step_renewal_rejected[OF ok assms(2)])
  have "world_ok w'" using step_ok[OF ok st] .
  then have "list_all (caller_ok None) (callers w')" by (simp add: world_ok_def w'_def)
  then have nw: "list_all (\<lambda>c. \<not> waits_for q c) (callers w')"
    by (simp add: list_all_iff not_waiting)
  have "step (Call_fetch au a) w'
               = Some (w'\<lparr> callers := callers w' @ [\<lparr> task = Fetch Await_response au a None,
                                                       sent = [token (api w)] \<rparr>] \<rparr>)"
    by (simp add: step_simps fetch_enter_def w'_def)
  with st nw show ?thesis by (simp add: w'_def)
qed

theorem renewal_failure_atomic_witness:
  "run [Call_fetch True 0, Response_arrives 0 expired, Call_fetch True 0,
        Call_getWebServiceToken 0, Call_fetch False 0] (initial ''t0'' True)
     = Some \<lparr> api = \<lparr> token = ''t0'', onTokenExpired = True, renewToken = Some 0 \<rparr>,
              invocations = 1,
              callers = [\<lparr> task = Fetch (Await_renewToken 0) True 1 None, sent = [''t0''] \<rparr>,
                         \<lparr> task = Fetch (Await_renewToken 0) True 0 None, sent = [] \<rparr>,
                         \<lparr> task = Wst_await_renewToken 0 0, sent = [] \<rparr>,
                         \<lparr> task = Fetch Await_response False 0 None, sent = [''t0''] \<rparr>] \<rparr>
   \<and> (\<exists>w'. step (Renewal_settles (Inl (Rejected ''refused'')))
               \<lparr> api = \<lparr> token = ''t0'', onTokenExpired = True, renewToken = Some 0 \<rparr>,
                 invocations = 1,
                 callers = [\<lparr> task = Fetch (Await_renewToken 0) True 1 None, sent = [''t0''] \<rparr>,
                            \<lparr> task = Fetch (Await_renewToken 0) True 0 None, sent = [] \<rparr>,
                            \<lparr> task = Wst_await_renewToken 0 0, sent = [] \<rparr>,
                            \<lparr> task = Fetch Await_response False 0 None, sent = [''t0''] \<rparr>] \<rparr>
             = Some w'
           \<and> api w' = \<lparr> token = ''t0'', onTokenExpired = True, renewToken = None \<rparr>
           \<and> invocations w' = 1
           \<and> callers w' = [\<lparr> task = Settled (Inl (Rejected ''refused'')), sent = [''t0''] \<rparr>,
                            \<lparr> task = Settled (Inl (Rejected ''refused'')), sent = [] \<rparr>,
                            \<lparr> task = Settled (Inl (Rejected ''refused'')), sent = [] \<rparr>,
                            \<lparr> task = Fetch Await_response False 0 None, sent = [''t0''] \<rparr>]
           \<and> step (Call_fetch True 0) w'
               = Some (w'\<lparr> callers := callers w' @ [\<lparr> task = Fetch Await_response True 0 None,
                                                       sent = [''t0''] \<rparr>] \<rparr>))"
proof -
  let ?w = "\<lparr> api = \<lparr> token = ''t0'', onTokenExpired = True, renewToken = Some 0 \<rparr>,
              invocations = 1,
              callers = [\<lparr> task = Fetch (Await_renewToken 0) True 1 None, sent = [''t0''] \<rparr>,
                         \<lparr> task = Fetch (Await_renewToken 0) True 0 None, sent = [] \<rparr>,
                         \<lparr> task = Wst_await_renewToken 0 0, sent = [] \<rparr>,
                         \<lparr> task = Fetch Await_response False 0 None, sent = [''t0''] \<rparr>] \<rparr>"
  have r: "run [Call_fetch True 0, Response_arrives 0 expired, Call_fetch True 0,
        Call_getWebServiceToken 0, Call_fetch False 0] (initial ''t0'' True) = Some ?w"
    by (simp add: run_defs expired_def)
  have m: "renewToken (api ?w) = Some 0" by simp
  from renewal_failure_atomic[OF r m, of "Rejected ''refused''" 0 True 0]
  obtain w' where "step (Renewal_settles (Inl (Rejected ''refused''))) ?w = Some w'"
    "api w' = (api ?w)\<lparr> renewToken := None \<rparr>" "invocations w' = invocations ?w"
    "callers w' = map (\<lambda>c. if waits_for 0 c then c\<lparr> task := Settled (Inl (Rejected ''refused'')) \<rparr> else c)
                               (callers ?w)"
    "step (Call_fetch True 0) w'
               = Some (w'\<lparr> callers := callers w' @ [\<lparr> task = Fetch Await_response True 0 None,
                                                       sent = [token (api ?w)] \<rparr>] \<rparr>)"
    by blast
  then have "step (Renewal_settles (Inl (Rejected ''refused''))) ?w = Some w'
           \<and> api w' = \<lparr> token = ''t0'', onTokenExpired = True, renewToken = None \<rparr>
           \<and> invocations w' = 1
           \<and> callers w' = [\<lparr> task = Settled (Inl (Rejected ''refused'')), sent = [''t0''] \<rparr>,
                            \<lparr> task = Settled (Inl (Rejected ''refused'')), sent = [] \<rparr>,
                            \<lparr> task = Settled (Inl (Rejected ''refused'')), sent = [] \<rparr>,
                            \<lparr> task = Fetch Await_response False 0 None, sent = [''t0''] \<rparr>]
           \<and> step (Call_fetch True 0) w'
               = Some (w'\<lparr> callers := callers w' @ [\<lparr> task = Fetch Await_response True 0 None,
                                                       sent = [''t0''] \<rparr>] \<rparr>)"
    by (simp add: waits_for_def)
  then have "\<exists>w'. step (Renewal_settles (Inl (Rejected ''refused''))) ?w = Some w'
           \<and> api w' = \<lparr> token = ''t0'', onTokenExpired = True, renewToken = None \<rparr>
           \<and> invocations w' = 1
           \<and> callers w' = [\<lparr> task = Settled (Inl (Rejected ''refused'')), sent = [''t0''] \<rparr>,
                            \<lparr> task = Settled (Inl (Rejected ''refused'')), sent = [] \<rparr>,
                            \<lparr> task = Settled (Inl (Rejected ''refused'')), sent = [] \<rparr>,
                            \<lparr> task = Fetch Await_response False 0 None, sent = [''t0''] \<rparr>]
           \<and> step (Call_fetch True 0) w'
               = Some (w'\<lparr> callers := callers w' @ [\<lparr> task = Fetch Await_response True 0 None,
                                                       sent = [''t0''] \<rparr>] \<rparr>)"
    by (rule exI)
  with r show ?thesis by (intro conjI)
qed

subsection \<open>Single-flight renewal\<close>

lemma response_arrives_client:
  assumes "response_arrives s c reply = Some (s', c')"
  shows "s' = s \<or> s' = renew s"
proof -
  from assms obtain au a k where t: "task c = Fetch Await_response au a k"
    by (auto simp: response_arrives_def split: task.splits fetch_pc.splits)
  show ?thesis
  proof (cases "fetch_response (fst s) au a reply")
    case Retry
    with assms t show ?thesis by (simp add: response_arrives_def Let_def)
  next
    case (Throw err)
    with assms t have "s' = fst (fetch_settles s k (Inl err) (sent c))"
      by (auto simp: response_arrives_def dest: arg_cong[where f = fst])
    with fetch_settles_client[of s k "Inl err" "sent c"] show ?thesis by simp
  next
    case (Return v)
    with assms t have "s' = fst (fetch_settles s k (Inr v) (sent c))"
      by (auto simp: response_arrives_def dest: arg_cong[where f = fst])
    with fetch_settles_client[of s k "Inr v" "sent c"] show ?thesis by simp
  qed
qed

lemma quiet_step:
  assumes "\<not> is_renewal_settles ev" and "step ev w = Some w'"
  shows "(api w', invocations w') = (api w, invocations w)
         \<or> (api w', invocations w') = renew (api w, invocations w)"
    and "length (callers w) \<le> length (callers w')"
    and "\<lbrakk>j < length (callers w); \<forall>r. ev \<noteq> Response_arrives j r; \<forall>f. ev \<noteq> F_settles j f\<rbrakk>
           \<Longrightarrow> callers w' ! j = callers w ! j"
proof -
  have "((api w', invocations w') = (api w, invocations w)
         \<or> (api w', invocations w') = renew (api w, invocations w))
        \<and> length (callers w) \<le> length (callers w')
        \<and> (j < length (callers w) \<longrightarrow> (\<forall>r. ev \<noteq> Response_arrives j r)
             \<longrightarrow> (\<forall>f. ev \<noteq> F_settles j f) \<longrightarrow> callers w' ! j = callers w ! j)"
  proof (cases ev)
    case (Call_fetch au a)
    with assms(2) show ?thesis by (auto simp: step_simps nth_append)
  next
    case (Call_getWebServiceToken a)
    with assms(2) show ?thesis by (auto simp: step_simps nth_append)
  next
    case (Response_arrives i reply)
    with assms(2) obtain sc
      where r: "response_arrives (api w, invocations w) (callers w ! i) reply = Some sc"
        and w': "w' = put_caller w i sc"
      by (auto simp: step_simps split: if_splits)
    obtain s' c' where sc: "sc = (s', c')" by (cases sc)
    from response_arrives_client[OF r[unfolded sc]]
    have "s' = (api w, invocations w) \<or> s' = renew (api w, invocations w)" .
    then show ?thesis unfolding w' sc Response_arrives
      by (auto simp: put_caller_def)
  next
    case (F_settles i failure)
    with assms(2) obtain sc
      where r: "f_settles (api w, invocations w) (callers w ! i) failure = Some sc"
        and w': "w' = put_caller w i sc"
      by (auto simp: step_simps split: if_splits)
    from r have "fst sc = (api w, invocations w)"
      by (auto simp: f_settles_def split: task.splits option.splits)
    then show ?thesis unfolding w' F_settles
      by (auto simp: put_caller_def)
  next
    case (Renewal_settles outcome)
    with assms(1) show ?thesis by (simp add: is_renewal_settles_def)
  qed
  then show "(api w', invocations w') = (api w, invocations w)
         \<or> (api w', invocations w') = renew (api w, invocations w)"
    and "length (callers w) \<le> length (callers w')"
    and "\<lbrakk>j < length (callers w); \<forall>r. ev \<noteq> Response_arrives j r; \<forall>f. ev \<noteq> F_settles j f\<rbrakk>
           \<Longrightarrow> callers w' ! j = callers w ! j"
    by blast+
qed

lemma renew_period:
  assumes "in_period p w" and "(api w', invocations w') = renew (api w, invocations w)"
  shows "in_period p w'" and "renewToken (api w') = Some p"
    and "token (api w') = token (api w)" and "onTokenExpired (api w') = onTokenExpired (api w)"
  using assms by (auto simp: in_period_def renew_def split: option.splits)

lemma quiet_step_period:
  assumes "in_period p w" and "\<not> is_renewal_settles ev" and "step ev w = Some w'"
  shows "in_period p w'" and "token (api w') = token (api w)"
    and "onTokenExpired (api w') = onTokenExpired (api w)"
    and "renewToken (api w) = Some p \<Longrightarrow> renewToken (api w') = Some p"
proof -
  from quiet_step(1)[OF assms(2,3)]
  consider "(api w', invocations w') = (api w, invocations w)"
    | "(api w', invocations w') = renew (api w, invocations w)" by blast
  then have "in_period p w' \<and> token (api w') = token (api w)
        \<and> onTokenExpired (api w') = onTokenExpired (api w)
        \<and> (renewToken (api w) = Some p \<longrightarrow> renewToken (api w') = Some p)"
  proof cases
    case 1
    with assms(1) show ?thesis by (simp add: in_period_def)
  next
    case 2
    from renew_period[OF assms(1) 2] show ?thesis by simp
  qed
  then show "in_period p w'" and "token (api w') = token (api w)"
    and "onTokenExpired (api w') = onTokenExpired (api w)"
    and "renewToken (api w) = Some p \<Longrightarrow> renewToken (api w') = Some p"
    by blast+
qed

lemma waiting_stays:
  assumes "in_period p w" and "renewToken (api w) = Some p"
    and "i < length (callers w)" and "task (callers w ! i) = Fetch (Await_renewToken q) au a k"
    and "\<forall>ev\<in>set evs. \<not> is_renewal_settles ev" and "run evs w = Some w1"
  shows "renewToken (api w1) = Some p \<and> invocations w1 = Suc p
         \<and> token (api w1) = token (api w)
         \<and> i < length (callers w1) \<and> callers w1 ! i = callers w ! i"
  using assms
proof (induction evs arbitrary: w)
  case Nil
  then show ?case by (simp add: in_period_def)
next
  case (Cons ev evs)
  from Cons.prems(6) obtain w' where st: "step ev w = Some w'" and rn: "run evs w' = Some w1"
    by (auto split: option.splits)
  from Cons.prems(5) have q: "\<not> is_renewal_settles ev" "\<forall>ev\<in>set evs. \<not> is_renewal_settles ev"
    by simp_all
  have "\<forall>r. ev \<noteq> Response_arrives i r"
    using st Cons.prems(3,4) by (auto simp: step_simps response_arrives_def)
  moreover have "\<forall>f. ev \<noteq> F_settles i f"
    using st Cons.prems(3,4) by (auto simp: step_simps f_settles_def)
  ultimately have same: "callers w' ! i = callers w ! i"
    using quiet_step(3)[OF q(1) st Cons.prems(3)] by blast
  have len: "i < length (callers w')"
    using quiet_step(2)[OF q(1) st] Cons.prems(3) by simp
  from quiet_step_period[OF Cons.prems(1) q(1) st] Cons.prems(2)
  have per: "in_period p w'" "token (api w') = token (api w)" "renewToken (api w') = Some p"
    by simp_all
  from Cons.IH[OF per(1) per(3) len _ q(2) rn] same Cons.prems(4) per(2)
  show ?case by simp
qed

lemma observes_and_joins:
  assumes "in_period p w" and "onTokenExpired (api w)"
    and "i < length (callers w)" and "task (callers w ! i) = Fetch Await_response True 0 None"
    and "\<forall>ev\<in>set evs. \<not> is_renewal_settles ev"
    and "\<exists>r. Response_arrives i r \<in> set evs"
    and "\<forall>r. Response_arrives i r \<in> set evs \<longrightarrow> token_expired_reply r"
    and "run evs w = Some w1"
  shows "renewToken (api w1) = Some p \<and> invocations w1 = Suc p
         \<and> token (api w1) = token (api w)
         \<and> i < length (callers w1)
         \<and> callers w1 ! i = \<lparr> task = Fetch (Await_renewToken p) True 1 None,
                               sent = sent (callers w ! i) \<rparr>"
  using assms
proof (induction evs arbitrary: w)
  case Nil
  then show ?case by simp
next
  case (Cons ev evs)
  from Cons.prems(8) obtain w' where st: "step ev w = Some w'" and rn: "run evs w' = Some w1"
    by (auto split: option.splits)
  from Cons.prems(5) have q: "\<not> is_renewal_settles ev" "\<forall>ev\<in>set evs. \<not> is_renewal_settles ev"
    by simp_all
  have len: "i < length (callers w')"
    using quiet_step(2)[OF q(1) st] Cons.prems(3) by simp
  from quiet_step_period[OF Cons.prems(1) q(1) st]
  have per: "in_period p w'" "token (api w') = token (api w)"
    "onTokenExpired (api w') = onTokenExpired (api w)"
    by simp_all
  show ?case
  proof (cases "\<exists>r. ev = Response_arrives i r")
    case True
    then obtain r where ev: "ev = Response_arrives i r" by blast
    with Cons.prems(7) have ex: "token_expired_reply r" by simp
    from first_expiry_fetch[OF Cons.prems(4) _ ex, of "(api w, invocations w)"] Cons.prems(2)
    obtain p' where p': "response_arrives (api w, invocations w) (callers w ! i) r
        = Some (renew (api w, invocations w),
                \<lparr> task = Fetch (Await_renewToken p') True 1 None, sent = sent (callers w ! i) \<rparr>)"
      "renewToken (fst (renew (api w, invocations w))) = Some p'" by auto
    from st ev p'(1) Cons.prems(3)
    have w': "(api w', invocations w') = renew (api w, invocations w)"
      "callers w' ! i = \<lparr> task = Fetch (Await_renewToken p') True 1 None,
                           sent = sent (callers w ! i) \<rparr>"
      by (auto simp: step_simps put_caller_def)
    from renew_period(2)[OF Cons.prems(1) w'(1)] have m: "renewToken (api w') = Some p" .
    with p'(2) w'(1) have "p' = p" by (metis fst_conv option.inject)
    with w'(2) have j: "callers w' ! i = \<lparr> task = Fetch (Await_renewToken p) True 1 None,
                           sent = sent (callers w ! i) \<rparr>" by simp
    then have t: "task (callers w' ! i) = Fetch (Await_renewToken p) True 1 None" by simp
    from waiting_stays[OF per(1) m len t q(2) rn] j per(2) show ?thesis by simp
  next
    case False
    then have nr: "\<forall>r. ev \<noteq> Response_arrives i r" by blast
    have nf: "\<forall>f. ev \<noteq> F_settles i f"
      using st Cons.prems(3,4) by (auto simp: step_simps f_settles_def)
    from quiet_step(3)[OF q(1) st Cons.prems(3) nr nf]
    have same: "callers w' ! i = callers w ! i" .
    from Cons.prems(6) nr have ex: "\<exists>r. Response_arrives i r \<in> set evs" by auto
    from Cons.prems(7) have al: "\<forall>r. Response_arrives i r \<in> set evs \<longrightarrow> token_expired_reply r"
      by simp
    from Cons.IH[OF per(1) _ len _ q(2) ex al rn] same Cons.prems(2,4) per(2,3)
    show ?thesis by simp
  qed
qed

lemma resume_settled:
  assumes "task c = Fetch (Await_renewToken p) True 1 None"
  shows "snd (resume p (case outcome of Inl e \<Rightarrow> Some e | Inr _ \<Rightarrow> None) s c)
           = (case outcome of
                Inl e \<Rightarrow> \<lparr> task = Settled (Inl e), sent = sent c \<rparr>
              | Inr x \<Rightarrow> \<lparr> task = Fetch Await_response True 1 None,
                           sent = sent c @ [token (fst s)] \<rparr>)"
  using assms by (simp add: resume_def fetch_settles_def split: sum.splits)

text \<open>
  Claim C1, as the code has it. Take any world that the event loop reaches from a fresh
  client, in which no renewal is pending and a callback is set, and any non-empty set of
  calls of \<^verbatim>\<open>fetch\<close> in it whose first request is on its way (default
  \<^verbatim>\<open>_autoRenewToken\<close>, \<^verbatim>\<open>_attempt\<close> 0). Let anything happen next except the end
  of a renewal (other calls may be made, other responses may arrive), and let each of the
  chosen calls receive a response in that time, a token-expired envelope. Then
  \<^verbatim>\<open>onTokenExpired\<close> has been invoked exactly once more, that renewal is pending, the
  token is untouched and every chosen call waits for that renewal, having sent nothing
  more. When the renewal settles, the step exists, the callback has still been invoked
  once only, and the chosen calls all go the same way: on a rejection each settles with
  that error, and otherwise each sends its second request with the same token, the one
  the client then holds (the new one if the callback returned data, the old one if not).
\<close>

theorem single_flight_renewal:
  assumes "run evs0 (initial tok cb) = Some w"
    and "renewToken (api w) = None" and "onTokenExpired (api w)"
    and "I \<noteq> {}"
    and "\<forall>i\<in>I. i < length (callers w) \<and> task (callers w ! i) = Fetch Await_response True 0 None"
    and "\<forall>ev\<in>set evs. \<not> is_renewal_settles ev"
    and "\<forall>i\<in>I. \<exists>r. Response_arrives i r \<in> set evs"
    and "\<forall>i\<in>I. \<forall>r. Response_arrives i r \<in> set evs \<longrightarrow> token_expired_reply r"
    and "run evs w = Some w1"
  shows "invocations w1 = Suc (invocations w)
       \<and> renewToken (api w1) = Some (invocations w)
       \<and> token (api w1) = token (api w)
       \<and> (\<forall>i\<in>I. callers w1 ! i = \<lparr> task = Fetch (Await_renewToken (invocations w)) True 1 None,
                                     sent = sent (callers w ! i) \<rparr>)
       \<and> (\<exists>w2. step (Renewal_settles outcome) w1 = Some w2
             \<and> invocations w2 = Suc (invocations w)
             \<and> renewToken (api w2) = None
             \<and> token (api w2) = (case outcome of Inr (Some t) \<Rightarrow> t | _ \<Rightarrow> token (api w))
             \<and> (\<forall>i\<in>I. callers w2 ! i =
                   (case outcome of
                      Inl e \<Rightarrow> \<lparr> task = Settled (Inl e), sent = sent (callers w ! i) \<rparr>
                    | Inr x \<Rightarrow> \<lparr> task = Fetch Await_response True 1 None,
                                 sent = sent (callers w ! i) @ [token (api w2)] \<rparr>)))"
proof -
  define p where "p = invocations w"
  have per: "in_period p w" using assms(2) by (simp add: in_period_def p_def)
  have each: "renewToken (api w1) = Some p \<and> invocations w1 = Suc p
         \<and> token (api w1) = token (api w)
         \<and> i < length (callers w1)
         \<and> callers w1 ! i = \<lparr> task = Fetch (Await_renewToken p) True 1 None,
                               sent = sent (callers w ! i) \<rparr>" if "i \<in> I" for i
    using that assms(5,7,8)
    by (intro observes_and_joins[OF per assms(3) _ _ assms(6) _ _ assms(9)]) auto
  from assms(4) obtain i0 where "i0 \<in> I" by blast
  from each[OF this] have w1: "renewToken (api w1) = Some p" "invocations w1 = Suc p"
    "token (api w1) = token (api w)" by simp_all
  have "world_ok w" using run_ok[OF initial_ok assms(1)] .
  then have ok1: "world_ok w1" using run_ok assms(9) by blast
  then have ok: "list_all (caller_ok (Some p)) (callers w1)" using w1(1) by (simp add: world_ok_def)
  define failure where "failure = (case outcome of Inl e \<Rightarrow> Some e | Inr _ \<Rightarrow> None)"
  define s' where "s' = ((case outcome of Inr (Some t) \<Rightarrow> setTokenWithSavedToken (api w1) t
                         | _ \<Rightarrow> api w1)\<lparr> renewToken := None \<rparr>, invocations w1)"
  define w2 where "w2 = \<lparr> api = fst s', invocations = snd s',
                          callers = map (\<lambda>c. snd (resume p failure s' c)) (callers w1) \<rparr>"
  have st: "step (Renewal_settles outcome) w1 = Some w2"
    using renewal_settles_ok[OF w1(1) ok, of "invocations w1" outcome]
    by (simp add: step_simps w2_def s'_def failure_def)
  have tk: "token (api w2) = (case outcome of Inr (Some t) \<Rightarrow> t | _ \<Rightarrow> token (api w))"
    using w1(3) by (simp add: w2_def s'_def setTokenWithSavedToken_def split: sum.splits option.splits)
  have a2: "invocations w2 = Suc p" "renewToken (api w2) = None"
    using w1(2) by (simp_all add: w2_def s'_def)
  have c2: "callers w2 ! i =
                   (case outcome of
                      Inl e \<Rightarrow> \<lparr> task = Settled (Inl e), sent = sent (callers w ! i) \<rparr>
                    | Inr x \<Rightarrow> \<lparr> task = Fetch Await_response True 1 None,
                                 sent = sent (callers w ! i) @ [token (api w2)] \<rparr>)"
    if "i \<in> I" for i
  proof -
    from each[OF that] have i: "i < length (callers w1)"
      and c: "callers w1 ! i = \<lparr> task = Fetch (Await_renewToken p) True 1 None,
                               sent = sent (callers w ! i) \<rparr>" by simp_all
    from c have t: "task (callers w1 ! i) = Fetch (Await_renewToken p) True 1 None"
      and sn: "sent (callers w1 ! i) = sent (callers w ! i)" by simp_all
    have "callers w2 ! i = snd (resume p failure s' (callers w1 ! i))"
      using i by (simp add: w2_def)
    also have "\<dots> = (case outcome of
                Inl e \<Rightarrow> \<lparr> task = Settled (Inl e), sent = sent (callers w1 ! i) \<rparr>
              | Inr x \<Rightarrow> \<lparr> task = Fetch Await_response True 1 None,
                           sent = sent (callers w1 ! i) @ [token (fst s')] \<rparr>)"
      unfolding failure_def by (rule resume_settled[OF t])
    finally show ?thesis by (simp add: sn w2_def split: sum.splits)
  qed
  from w1 each st tk a2 c2 show ?thesis unfolding p_def by blast
qed

theorem single_flight_renewal_witness:
  "run [Call_fetch True 0, Response_arrives 0 expired, Renewal_settles (Inr (Some ''t1'')),
        Response_arrives 0 ok_reply, Call_fetch True 0, Call_fetch True 0,
        Call_getWebServiceToken 0]
       (initial ''t0'' True)
     = Some \<lparr> api = \<lparr> token = ''t1'', onTokenExpired = True, renewToken = None \<rparr>,
              invocations = 1,
              callers = [\<lparr> task = Settled (Inr \<lparr> status = OK, errorMessage = None, result_value = ''r'',
                                                 correlationId = ''c'' \<rparr>),
                           sent = [''t0'', ''t1''] \<rparr>,
                         \<lparr> task = Fetch Await_response True 0 None, sent = [''t1''] \<rparr>,
                         \<lparr> task = Fetch Await_response True 0 None, sent = [''t1''] \<rparr>,
                         \<lparr> task = Wst_await_f 0, sent = [] \<rparr>] \<rparr>
   \<and> run [Response_arrives 2 expired, Call_fetch True 0, F_settles 3 None,
        Response_arrives 1 expired]
       \<lparr> api = \<lparr> token = ''t1'', onTokenExpired = True, renewToken = None \<rparr>,
           invocations = 1,
           callers = [\<lparr> task = Settled (Inr \<lparr> status = OK, errorMessage = None, result_value = ''r'',
                                              correlationId = ''c'' \<rparr>),
                        sent = [''t0'', ''t1''] \<rparr>,
                      \<lparr> task = Fetch Await_response True 0 None, sent = [''t1''] \<rparr>,
                      \<lparr> task = Fetch Await_response True 0 None, sent = [''t1''] \<rparr>,
                      \<lparr> task = Wst_await_f 0, sent = [] \<rparr>] \<rparr>
     = Some \<lparr> api = \<lparr> token = ''t1'', onTokenExpired = True, renewToken = Some 1 \<rparr>,
              invocations = 2,
              callers = [\<lparr> task = Settled (Inr \<lparr> status = OK, errorMessage = None, result_value = ''r'',
                                                 correlationId = ''c'' \<rparr>),
                           sent = [''t0'', ''t1''] \<rparr>,
                         \<lparr> task = Fetch (Await_renewToken 1) True 1 None, sent = [''t1''] \<rparr>,
                         \<lparr> task = Fetch (Await_renewToken 1) True 1 None, sent = [''t1''] \<rparr>,
                         \<lparr> task = Fetch Await_response False 0 (Some 0), sent = [''t1''] \<rparr>,
                         \<lparr> task = Fetch (Await_renewToken 1) True 0 None, sent = [] \<rparr>] \<rparr>
   \<and> (\<exists>w2. step (Renewal_settles (Inr (Some ''t2''))) 
          \<lparr> api = \<lparr> token = ''t1'', onTokenExpired = True, renewToken = Some 1 \<rparr>,
              invocations = 2,
              callers = [\<lparr> task = Settled (Inr \<lparr> status = OK, errorMessage = None, result_value = ''r'',
                                                 correlationId = ''c'' \<rparr>),
                           sent = [''t0'', ''t1''] \<rparr>,
                         \<lparr> task = Fetch (Await_renewToken 1) True 1 None, sent = [''t1''] \<rparr>,
                         \<lparr> task = Fetch (Await_renewToken 1) True 1 None, sent = [''t1''] \<rparr>,
                         \<lparr> task = Fetch Await_response False 0 (Some 0), sent = [''t1''] \<rparr>,
                         \<lparr> task = Fetch (Await_renewToken 1) True 0 None, sent = [] \<rparr>] \<rparr>
        = Some w2
         \<and> invocations w2 = 2
         \<and> renewToken (api w2) = None
         \<and> token (api w2) = ''t2''
         \<and> callers w2 ! 1 = \<lparr> task = Fetch Await_response True 1 None, sent = [''t1'', ''t2''] \<rparr>
         \<and> callers w2 ! 2 = \<lparr> task = Fetch Await_response True 1 None, sent = [''t1'', ''t2''] \<rparr>)"
proof -
  let ?w = "\<lparr> api = \<lparr> token = ''t1'', onTokenExpired = True, renewToken = None \<rparr>,
            invocations = 1,
            callers = [\<lparr> task = Settled (Inr \<lparr> status = OK, errorMessage = None, result_value = ''r'',
                                               correlationId = ''c'' \<rparr>),
                         sent = [''t0'', ''t1''] \<rparr>,
                       \<lparr> task = Fetch Await_response True 0 None, sent = [''t1''] \<rparr>,
                       \<lparr> task = Fetch Await_response True 0 None, sent = [''t1''] \<rparr>,
                       \<lparr> task = Wst_await_f 0, sent = [] \<rparr>] \<rparr>"
  let ?w1 = "\<lparr> api = \<lparr> token = ''t1'', onTokenExpired = True, renewToken = Some 1 \<rparr>,
            invocations = 2,
            callers = [\<lparr> task = Settled (Inr \<lparr> status = OK, errorMessage = None, result_value = ''r'',
                                               correlationId = ''c'' \<rparr>),
                         sent = [''t0'', ''t1''] \<rparr>,
                       \<lparr> task = Fetch (Await_renewToken 1) True 1 None, sent = [''t1''] \<rparr>,
                       \<lparr> task = Fetch (Await_renewToken 1) True 1 None, sent = [''t1''] \<rparr>,
                       \<lparr> task = Fetch Await_response False 0 (Some 0), sent = [''t1''] \<rparr>,
                       \<lparr> task = Fetch (Await_renewToken 1) True 0 None, sent = [] \<rparr>] \<rparr>"
  let ?evs = "[Response_arrives 2 expired, Call_fetch True 0, F_settles 3 None,
        Response_arrives 1 expired]"
  have r0: "run [Call_fetch True 0, Response_arrives 0 expired, Renewal_settles (Inr (Some ''t1'')),
        Response_arrives 0 ok_reply, Call_fetch True 0, Call_fetch True 0,
        Call_getWebServiceToken 0]
       (initial ''t0'' True) = Some ?w"
    by (simp add: run_defs expired_def ok_reply_def)
  have r1: "run ?evs ?w = Some ?w1"
    by (simp add: run_defs expired_def)
  have h1: "renewToken (api ?w) = None" and h2: "onTokenExpired (api ?w)"
    and h3: "{1, 2::nat} \<noteq> {}"
    and h4: "\<forall>i\<in>{1, 2::nat}. i < length (callers ?w)
               \<and> task (callers ?w ! i) = Fetch Await_response True 0 None"
    and h5: "\<forall>ev\<in>set ?evs. \<not> is_renewal_settles ev"
    and h6: "\<forall>i\<in>{1, 2::nat}. \<exists>r. Response_arrives i r \<in> set ?evs"
    and h7: "\<forall>i\<in>{1, 2::nat}. \<forall>r. Response_arrives i r \<in> set ?evs \<longrightarrow> token_expired_reply r"
    by (auto simp: is_renewal_settles_def token_expired_reply_def expired_def)
  have "(\<exists>w2. step (Renewal_settles (Inr (Some ''t2''))) ?w1 = Some w2
           \<and> invocations w2 = 2
           \<and> renewToken (api w2) = None
           \<and> token (api w2) = ''t2''
           \<and> callers w2 ! 1 = \<lparr> task = Fetch Await_response True 1 None, sent = [''t1'', ''t2''] \<rparr>
           \<and> callers w2 ! 2 = \<lparr> task = Fetch Await_response True 1 None, sent = [''t1'', ''t2''] \<rparr>)"
    using single_flight_renewal[OF r0 h1 h2 h3 h4 h5 h6 h7 r1, of "Inr (Some ''t2'')"]
    by auto
  with r0 r1 show ?thesis by (intro conjI)
qed

text \<open>
  Claim C1 as stated fails. Two calls are made while no renewal is pending. The response
  of the first arrives and the renewal it starts settles before the response of the
  second arrives: no renewal is pending then either, so the second call invokes
  \<^verbatim>\<open>onTokenExpired\<close> again. The callback has run twice, and the two calls retry with
  different tokens.
\<close>

theorem single_flight_renewal_counterexample:
  "run [Call_fetch True 0, Call_fetch True 0] (initial ''t0'' True)
     = Some \<lparr> api = \<lparr> token = ''t0'', onTokenExpired = True, renewToken = None \<rparr>,
              invocations = 0,
              callers = [\<lparr> task = Fetch Await_response True 0 None, sent = [''t0''] \<rparr>,
                         \<lparr> task = Fetch Await_response True 0 None, sent = [''t0''] \<rparr>] \<rparr>
   \<and> run [Call_fetch True 0, Call_fetch True 0,
           Response_arrives 0 expired, Renewal_settles (Inr (Some ''t1''))] (initial ''t0'' True)
     = Some \<lparr> api = \<lparr> token = ''t1'', onTokenExpired = True, renewToken = None \<rparr>,
              invocations = 1,
              callers = [\<lparr> task = Fetch Await_response True 1 None, sent = [''t0'', ''t1''] \<rparr>,
                         \<lparr> task = Fetch Await_response True 0 None, sent = [''t0''] \<rparr>] \<rparr>
   \<and> run [Call_fetch True 0, Call_fetch True 0,
           Response_arrives 0 expired, Renewal_settles (Inr (Some ''t1'')),
           Response_arrives 1 expired, Renewal_settles (Inr (Some ''t2''))] (initial ''t0'' True)
     = Some \<lparr> api = \<lparr> token = ''t2'', onTokenExpired = True, renewToken = None \<rparr>,
              invocations = 2,
              callers = [\<lparr> task = Fetch Await_response True 1 None, sent = [''t0'', ''t1''] \<rparr>,
                         \<lparr> task = Fetch Await_response True 1 None, sent = [''t0'', ''t2''] \<rparr>] \<rparr>"
  by (simp add: run_defs expired_def)

end
